theory Spec2Isabelle
  imports Complex_Main "HOL-Library.AList" "HOL-Library.Log_Nat"
begin

section \<open>JavaScript values as the page sees them\<close>

text \<open>
  The page \<^verbatim>\<open>src/pages/Analysis.tsx\<close> talks to two endpoints and works on what
  \<^verbatim>\<open>response.json()\<close> and \<^verbatim>\<open>JSON.parse\<close> hand back. A parsed JSON value is one of six
  shapes; an object lists its own properties in insertion order, each name once (the
  built-in parser keeps the last of two equal names). A JSON number is a double, which is
  a rational number. The JavaScript value \<^verbatim>\<open>undefined\<close> is \<open>None\<close> of \<open>json option\<close>.
  Strings are byte strings; the two characters the page looks for, the braces, are single
  bytes in UTF-8 and single code units in UTF-16, and no other character contains them.
\<close>

datatype json =
    JNull
  | JBool bool
  | JNum rat
  | JStr string
  | JArr "json list"
  | JObj "(string \<times> json) list"

text \<open>
  Thrown values. \<open>Error m\<close> is \<^verbatim>\<open>new Error(m)\<close> of the page itself. \<open>TypeError\<close> and
  \<open>SyntaxError\<close> are raised by the engine (a property read on \<^verbatim>\<open>null\<close> or
  \<^verbatim>\<open>undefined\<close>, a call of something that is no function, an object that cannot be
  converted to a string, a rejected \<^verbatim>\<open>fetch\<close>, a body that cannot be read, a text that is
  no JSON); their message is the engine's own wording, which is never empty and which the
  page does not choose, so it is not spelled out.
\<close>

datatype js_error = Error string | TypeError | SyntaxError

text \<open>
  What the engine supplies: \<^verbatim>\<open>JSON.parse\<close> (\<open>None\<close> when it throws a SyntaxError) and the
  decimal rendering of a number.
\<close>

record engine =
  JSON_parse :: "string \<Rightarrow> json option"
  Number_toString :: "rat \<Rightarrow> string"

fun join :: "string \<Rightarrow> string list \<Rightarrow> string" where
  "join sep [] = []"
| "join sep [x] = x"
| "join sep (x # y # ys) = x @ sep @ join sep (y # ys)"

text \<open>
  The renderings of the elements of an array, from the left, up to the first one that
  throws.
\<close>

fun collect :: "(js_error + string) list \<Rightarrow> js_error + string list" where
  "collect [] = Inr []"
| "collect (r # rs) =
     (case r of
        Inl e \<Rightarrow> Inl e
      | Inr s \<Rightarrow> (case collect rs of Inl e \<Rightarrow> Inl e | Inr ss \<Rightarrow> Inr (s # ss)))"

text \<open>
  \<^verbatim>\<open>String(v)\<close> on a parsed JSON value. An array joins the renderings of its elements with
  commas, \<^verbatim>\<open>null\<close> elements rendered empty. A plain object is converted through its
  \<^verbatim>\<open>toString\<close> and \<^verbatim>\<open>valueOf\<close>: the inherited \<^verbatim>\<open>toString\<close> gives \<^verbatim>\<open>[object Object]\<close>; an
  own property \<^verbatim>\<open>toString\<close> hides it, and as no parsed value is a function and the
  inherited \<^verbatim>\<open>valueOf\<close> returns the object itself, the conversion then throws a
  TypeError.
\<close>

fun ToString :: "(rat \<Rightarrow> string) \<Rightarrow> json \<Rightarrow> js_error + string" where
  "ToString ns JNull = Inr ''null''"
| "ToString ns (JBool b) = Inr (if b then ''true'' else ''false'')"
| "ToString ns (JNum n) = Inr (ns n)"
| "ToString ns (JStr s) = Inr s"
| "ToString ns (JArr xs) =
     (case collect (map (\<lambda>x. if x = JNull then Inr [] else ToString ns x) xs) of
        Inl e \<Rightarrow> Inl e
      | Inr ss \<Rightarrow> Inr (join '','' ss))"
| "ToString ns (JObj kvs) =
     (if ''toString'' \<in> set (map fst kvs) then Inl TypeError else Inr ''[object Object]'')"

text \<open>
  The value thrown by \<^verbatim>\<open>throw new Error(m)\<close>: an error whose message is empty when \<open>m\<close> is
  \<^verbatim>\<open>undefined\<close> and \<^verbatim>\<open>String(m)\<close> otherwise, or the TypeError of that conversion.
\<close>

definition new_Error :: "engine \<Rightarrow> json option \<Rightarrow> js_error" where
  "new_Error eng m =
     (case m of
        None \<Rightarrow> Error []
      | Some v \<Rightarrow>
          (case ToString (Number_toString eng) v of
             Inl e \<Rightarrow> e
           | Inr s \<Rightarrow> Error s))"

text \<open>
  Reading the property \<open>k\<close> of a parsed value, for the two names the page reads
  (\<^verbatim>\<open>error\<close> and \<^verbatim>\<open>answer\<close>): \<^verbatim>\<open>null\<close> throws, an object answers with its own property or
  \<^verbatim>\<open>undefined\<close>, and booleans, numbers, strings and arrays have no such property.
\<close>

fun get_prop :: "json \<Rightarrow> string \<Rightarrow> js_error + json option" where
  "get_prop JNull k = Inl TypeError"
| "get_prop (JObj kvs) k = Inr (map_of kvs k)"
| "get_prop v k = Inr None"

text \<open>\<^verbatim>\<open>typeof v === 'object'\<close>: true of \<^verbatim>\<open>null\<close>, of arrays and of objects.\<close>

fun typeof_object :: "json option \<Rightarrow> bool" where
  "typeof_object (Some JNull) = True"
| "typeof_object (Some (JArr xs)) = True"
| "typeof_object (Some (JObj kvs)) = True"
| "typeof_object v = False"

section \<open>The regular expression of \<^verbatim>\<open>fetchAnalysis\<close>\<close>

text \<open>
  \<^verbatim>\<open>data.answer.match(/\{[\s\S]*\}/)\<close>. The class \<^verbatim>\<open>[\s\S]\<close> accepts every character. The
  matcher tries the start positions from the left; at a start position it needs an opening
  brace, lets the star take as much as it can, and gives characters back until a closing
  brace follows. \<open>star_rbrace\<close> is \<^verbatim>\<open>[\s\S]*\}\<close> anchored at the head of its argument: it
  prefers to let the star swallow the next character, and ends at a closing brace only
  when nothing later matches.
\<close>

fun star_rbrace :: "string \<Rightarrow> string option" where
  "star_rbrace [] = None"
| "star_rbrace (c # cs) =
     (case star_rbrace cs of
        Some m \<Rightarrow> Some (c # m)
      | None \<Rightarrow> if c = CHR ''}'' then Some [c] else None)"

definition match_here :: "string \<Rightarrow> string option" where
  "match_here s =
     (case s of
        [] \<Rightarrow> None
      | c # cs \<Rightarrow> if c = CHR ''{'' then map_option ((#) c) (star_rbrace cs) else None)"

fun match_braces :: "string \<Rightarrow> string option" where
  "match_braces [] = None"
| "match_braces (c # cs) =
     (case match_here (c # cs) of
        Some m \<Rightarrow> Some m
      | None \<Rightarrow> match_braces cs)"

section \<open>Effects\<close>

text \<open>
  Everything a run does to the outside is recorded in order: the React state setters, the
  two kinds of requests, the writes to \<^verbatim>\<open>console.error\<close>, and the moment the reply to the
  \<open>i\<close>-th analysis request is handed to the code waiting for it.
\<close>

datatype display = Text string | EngineMessage js_error

datatype log_arg = Str string | Err js_error | Val "json option"

datatype event =
    PreventDefault
  | SetError "display option"
  | SetIsLoading bool
  | SetResults "(string \<times> json) list option"
  | SetProgress rat
  | SetLoadingStage string
  | Fetch string string
  | Resume nat
  | ConsoleError "log_arg list"

section \<open>API helper functions\<close>

text \<open>
  A request either never reaches a response (\<^verbatim>\<open>fetch\<close> rejects with a TypeError) or yields a
  response with its \<^verbatim>\<open>ok\<close> flag and its body text; \<open>None\<close> is a body that cannot be read.
\<close>

record response =
  ok :: bool
  body :: "string option"

datatype fetch_outcome = NetworkError | Response response

definition response_json :: "engine \<Rightarrow> response \<Rightarrow> js_error + json" where
  "response_json eng r =
     (case body r of
        None \<Rightarrow> Inl TypeError
      | Some t \<Rightarrow> (case JSON_parse eng t of None \<Rightarrow> Inl SyntaxError | Some v \<Rightarrow> Inr v))"

definition response_text :: "response \<Rightarrow> js_error + string" where
  "response_text r = (case body r of None \<Rightarrow> Inl TypeError | Some t \<Rightarrow> Inr t)"

text \<open>
  \<^verbatim>\<open>parseWebsite\<close>, from the reply to its request on. On a response that is not \<^verbatim>\<open>ok\<close> the
  body is parsed, a body that does not parse is replaced by the object with the stock
  message, and \<^verbatim>\<open>new Error(errorData.error)\<close> is thrown.
\<close>

definition parseWebsite :: "engine \<Rightarrow> fetch_outcome \<Rightarrow> js_error + json" where
  "parseWebsite eng reply =
     (case reply of
        NetworkError \<Rightarrow> Inl TypeError
      | Response r \<Rightarrow>
          if \<not> ok r then
            (let errorData =
                   (case response_json eng r of
                      Inl e \<Rightarrow> JObj [(''error'', JStr ''Failed to parse website content.'')]
                    | Inr v \<Rightarrow> v)
             in case get_prop errorData ''error'' of
                  Inl e \<Rightarrow> Inl e
                | Inr m \<Rightarrow> Inl (new_Error eng m))
          else response_json eng r)"

text \<open>
  The \<^verbatim>\<open>try\<close> block of \<^verbatim>\<open>fetchAnalysis\<close>: an answer whose \<^verbatim>\<open>typeof\<close> is \<^verbatim>\<open>object\<close> is returned
  as it is; otherwise \<^verbatim>\<open>.match\<close> is called on it, which only a string has.
\<close>

definition coerce_try :: "engine \<Rightarrow> json \<Rightarrow> js_error + json" where
  "coerce_try eng data =
     (case get_prop data ''answer'' of
        Inl e \<Rightarrow> Inl e
      | Inr a \<Rightarrow>
          if typeof_object a then (case a of Some v \<Rightarrow> Inr v | None \<Rightarrow> Inl TypeError)
          else
            (case a of
               Some (JStr s) \<Rightarrow>
                 (case match_braces s of
                    Some m \<Rightarrow>
                      (case JSON_parse eng m of
                         Some v \<Rightarrow> Inr v
                       | None \<Rightarrow> Inl SyntaxError)
                  | None \<Rightarrow> Inl (Error ''No valid JSON found in LLM response.''))
             | _ \<Rightarrow> Inl TypeError))"

text \<open>
  The \<^verbatim>\<open>try\<close> with its \<^verbatim>\<open>catch\<close>: the handler reads \<^verbatim>\<open>data.answer\<close> again for the log line
  (which throws once more when \<^verbatim>\<open>data\<close> is \<^verbatim>\<open>null\<close>), writes the log line, and throws the
  fixed error.
\<close>

definition coerce :: "engine \<Rightarrow> json \<Rightarrow> (js_error + json) \<times> event list" where
  "coerce eng data =
     (case coerce_try eng data of
        Inr v \<Rightarrow> (Inr v, [])
      | Inl e \<Rightarrow>
          (case get_prop data ''answer'' of
             Inl e' \<Rightarrow> (Inl e', [])
           | Inr a \<Rightarrow>
               (Inl (Error ''Invalid JSON format received from the server.''),
                [ConsoleError [Str ''JSON parsing error:'', Err e, Str ''Raw response:'', Val a]])))"

text \<open>
  \<^verbatim>\<open>fetchAnalysis\<close>, from the reply to its request on: the result and what it logged.
\<close>

definition fetchAnalysis :: "engine \<Rightarrow> fetch_outcome \<Rightarrow> (js_error + json) \<times> event list" where
  "fetchAnalysis eng reply =
     (case reply of
        NetworkError \<Rightarrow> (Inl TypeError, [])
      | Response r \<Rightarrow>
          if \<not> ok r then
            (case response_text r of
               Inl e \<Rightarrow> (Inl e, [])
             | Inr errorText \<Rightarrow> (Inl (Error (''API call failed: '' @ errorText)), []))
          else
            (case response_json eng r of
               Inl e \<Rightarrow> (Inl e, [])
             | Inr data \<Rightarrow> coerce eng data))"

section \<open>Numbers\<close>

text \<open>
  A JavaScript number is an IEEE double and every arithmetic operation rounds its exact
  result to the nearest double, ties to the even significand. \<open>fl\<close> is that rounding for
  results in the normal range (the page computes values between 0 and 101): \<open>binade a\<close>
  is the exponent \<open>e\<close> with \<open>2 ^ e \<le> a < 2 ^ (e + 1)\<close>, and the result is a multiple of
  \<open>2 ^ (e - 52)\<close>.
\<close>

definition round_half_even :: "rat \<Rightarrow> int" where
  "round_half_even x =
     (let f = \<lfloor>x\<rfloor>; d = x - of_int f
      in if d < 1 / 2 then f else if 1 / 2 < d then f + 1 else if even f then f else f + 1)"

definition pow2 :: "int \<Rightarrow> rat" where
  "pow2 e = (if 0 \<le> e then 2 ^ nat e else 1 / 2 ^ nat (- e))"

definition binade :: "rat \<Rightarrow> int" where
  "binade a =
     (if 1 \<le> a then int (floorlog 2 (nat \<lfloor>a\<rfloor>)) - 1
      else - int (floorlog 2 (nat (\<lceil>1 / a\<rceil> - 1))))"

definition fl :: "rat \<Rightarrow> rat" where
  "fl q =
     (if q = 0 then 0
      else
        let a = \<bar>q\<bar>;
            u = pow2 (binade a - 52);
            r = of_int (round_half_even (a / u)) * u
        in if q < 0 then - r else r)"

definition js_div :: "rat \<Rightarrow> rat \<Rightarrow> rat" where
  "js_div a b = fl (a / b)"

definition js_add :: "rat \<Rightarrow> rat \<Rightarrow> rat" where
  "js_add a b = fl (a + b)"

section \<open>Prompts and the list of analysis steps\<close>

record prompt =
  query :: string
  expectedFormat :: string

record prompts =
  foodPreference :: prompt
  healthGrade :: prompt
  riskAssessment :: prompt
  allergenAnalysis :: prompt
  nutritionFacts :: prompt

definition lines :: "string list \<Rightarrow> string" where
  "lines ls = join [CHR 0x0A] ls"

definition PROMPTS :: prompts where
  \<open>PROMPTS = \<lparr>
     foodPreference = \<lparr>
       query = ''Analyze the food product and determine if it's vegetarian, non-vegetarian, or contains eggs. Provide a clear classification.'',
       expectedFormat = lines
         [''Return JSON in this exact format:'',
          ''{'',
          ''  "category": "veg|non-veg|egg",'',
          ''  "description": "Brief explanation of why this classification was chosen"'',
          ''}'']\<rparr>,
     healthGrade = \<lparr>
       query = ''Grade this food product's healthiness from A (excellent) to E (poor) based on ingredients, nutritional value, processing level, and overall health impact.'',
       expectedFormat = lines
         [''Return JSON in this exact format:'',
          ''{'',
          ''  "grade": "A|B|C|D|E",'',
          ''  "title": "Short title like 'Excellent Choice' or 'Poor Quality'",'',
          ''  "description": "2-3 sentence explanation of why this grade was given",'',
          ''  "factors": ["factor1", "factor2", "factor3"]'',
          ''}'']\<rparr>,
     riskAssessment = \<lparr>
       query = ''Assess the health risk level of this product for a general consumer. Rate from 1-100 where 1 is lowest risk and 100 is highest risk.'',
       expectedFormat = lines
         [''Return JSON in this exact format:'',
          ''{'',
          ''  "riskScore": 25,'',
          ''  "riskLevel": "low|medium|high",'',
          ''  "description": "Brief explanation of the primary risk factors"'',
          ''}'']\<rparr>,
     allergenAnalysis = \<lparr>
       query = ''Identify potential common allergens (like nuts, gluten, dairy, soy) in this product. Provide specific warnings if present.'',
       expectedFormat = lines
         [''Return JSON in this exact format:'',
          ''{'',
          ''  "hasAllergens": true,'',
          ''  "alerts": ['',
          ''    {'',
          ''      "allergen": "allergen name",'',
          ''      "severity": "high|medium|low",'',
          ''      "description": "Specific warning message",'',
          ''      "icon": "'' @ [CHR 0xE2, CHR 0x9A, CHR 0xA0, CHR 0xEF, CHR 0xB8, CHR 0x8F] @ ''"'',
          ''    }'',
          ''  ]'',
          ''}'']\<rparr>,
     nutritionFacts = \<lparr>
       query = ''Extract and calculate nutritional information per serving including calories, protein, fat, carbohydrates, fiber, sugar, and sodium. Infer values if not explicitly present.'',
       expectedFormat = lines
         [''Return JSON in this exact format:'',
          ''{'',
          ''  "servingSize": "100g",'',
          ''  "nutrients": {'',
          ''    "Calories": 250,'',
          ''    "Protein": "12g",'',
          ''    "Total Fat": "8g",'',
          ''    "Carbohydrates": "35g",'',
          ''    "Dietary Fiber": "3g",'',
          ''    "Total Sugars": "5g",'',
          ''    "Sodium": "450mg"'',
          ''  }'',
          ''}'']\<rparr>\<rparr>\<close>

definition API_BASE_URL :: string where
  "API_BASE_URL = ''http://localhost:3000''"

record analysis_step =
  key :: string
  prompt :: prompt
  stage :: string

definition analysisSteps :: "analysis_step list" where
  "analysisSteps =
     [\<lparr>key = ''foodPreference'', prompt = foodPreference PROMPTS,
       stage = ''2/6 - Analyzing food category...''\<rparr>,
      \<lparr>key = ''healthGrade'', prompt = healthGrade PROMPTS,
       stage = ''3/6 - Calculating health grade...''\<rparr>,
      \<lparr>key = ''riskAssessment'', prompt = riskAssessment PROMPTS,
       stage = ''4/6 - Assessing health risks...''\<rparr>,
      \<lparr>key = ''allergenAnalysis'', prompt = allergenAnalysis PROMPTS,
       stage = ''5/6 - Checking for allergens...''\<rparr>,
      \<lparr>key = ''nutritionFacts'', prompt = nutritionFacts PROMPTS,
       stage = ''6/6 - Extracting nutrition facts...''\<rparr>]"

section \<open>The dashboard component and \<^verbatim>\<open>handleAnalyze\<close>\<close>

text \<open>
  The component's state (the six \<^verbatim>\<open>useState\<close> cells) together with the record of
  effects so far. A setter stores its value and records the call.
\<close>

record ui =
  url :: string
  isLoading :: bool
  loadingStage :: string
  progress :: rat
  error :: "display option"
  results :: "(string \<times> json) list option"
  trace :: "event list"

definition emit :: "event \<Rightarrow> ui \<Rightarrow> ui" where
  "emit e st = st\<lparr>trace := trace st @ [e]\<rparr>"

definition setIsLoading :: "bool \<Rightarrow> ui \<Rightarrow> ui" where
  "setIsLoading b st = emit (SetIsLoading b) (st\<lparr>isLoading := b\<rparr>)"

definition setLoadingStage :: "string \<Rightarrow> ui \<Rightarrow> ui" where
  "setLoadingStage l st = emit (SetLoadingStage l) (st\<lparr>loadingStage := l\<rparr>)"

definition setProgress :: "rat \<Rightarrow> ui \<Rightarrow> ui" where
  "setProgress p st = emit (SetProgress p) (st\<lparr>progress := p\<rparr>)"

definition setError :: "display option \<Rightarrow> ui \<Rightarrow> ui" where
  "setError m st = emit (SetError m) (st\<lparr>error := m\<rparr>)"

definition setResults :: "(string \<times> json) list option \<Rightarrow> ui \<Rightarrow> ui" where
  "setResults r st = emit (SetResults r) (st\<lparr>results := r\<rparr>)"

text \<open>
  What the network does during one run: the reply to the extraction request (\<open>None\<close>: it
  never settles), the reply to the \<open>i\<close>-th analysis request, and the order in which the
  analysis replies come in. A request whose index is not listed never settles; a second
  listing of an index, or an index beyond the five requests, is no arrival and is skipped.
\<close>

record network =
  site_reply :: "fetch_outcome option"
  llm_reply :: "nat \<Rightarrow> fetch_outcome"
  arrivals :: "nat list"

text \<open>\<^verbatim>\<open>err.message || 'An unknown error occurred.'\<close>\<close>

definition message_or_unknown :: "js_error \<Rightarrow> display" where
  "message_or_unknown err =
     (case err of
        Error m \<Rightarrow> if m = [] then Text ''An unknown error occurred.'' else Text m
      | _ \<Rightarrow> EngineMessage err)"

definition catch_block :: "js_error \<Rightarrow> ui \<Rightarrow> ui" where
  "catch_block err st = setError (Some (message_or_unknown err)) st"

definition finally_block :: "ui \<Rightarrow> ui" where
  "finally_block st = setIsLoading False st"

text \<open>
  The callback of \<^verbatim>\<open>analysisSteps.map\<close> is an async function: called, it runs up to its
  first suspension, which is inside \<^verbatim>\<open>fetchAnalysis\<close> at \<^verbatim>\<open>await fetch\<close>. So the call sets
  the stage label and sends the request, and \<^verbatim>\<open>map\<close> goes on to the next step. Nothing
  else runs before \<^verbatim>\<open>map\<close> is through and \<^verbatim>\<open>handleAnalyze\<close> suspends at
  \<^verbatim>\<open>await Promise.allSettled\<close>: a job runs to completion.
\<close>

definition launch_step :: "analysis_step \<Rightarrow> ui \<Rightarrow> ui" where
  "launch_step step st =
     emit (Fetch (API_BASE_URL @ ''/llm-call'')
             (query (prompt step) @ [CHR 0x0A, CHR 0x0A] @ expectedFormat (prompt step)))
       (setLoadingStage (stage step) st)"

definition launch_all :: "ui \<Rightarrow> ui" where
  "launch_all st = foldl (\<lambda>s step. launch_step step s) st analysisSteps"

text \<open>
  The rest of the callback, run when the reply to request \<open>i\<close> arrives: \<^verbatim>\<open>fetchAnalysis\<close>
  finishes; if it returns, progress is raised by \<^verbatim>\<open>100 / totalSteps\<close> and the promise is
  fulfilled with \<^verbatim>\<open>{ [step.key]: result }\<close>; if it throws, the promise is rejected and
  nothing else happens. \<open>settled\<close> holds the state of the five promises.
\<close>

definition resume_step ::
  "engine \<Rightarrow> network \<Rightarrow> nat \<Rightarrow> ui \<times> (js_error + (string \<times> json) list) option list \<Rightarrow> nat
     \<Rightarrow> ui \<times> (js_error + (string \<times> json) list) option list" where
  "resume_step eng net totalSteps s i =
     (case s of (st, settled) \<Rightarrow>
        if i < length settled \<and> settled ! i = None then
          (case fetchAnalysis eng (llm_reply net i) of (r, logs) \<Rightarrow>
             let st1 = emit (Resume i) st;
                 st2 = st1\<lparr>trace := trace st1 @ logs\<rparr>
             in case r of
                  Inl e \<Rightarrow> (st2, settled[i := Some (Inl e)])
                | Inr result \<Rightarrow>
                    (setProgress (js_add (progress st2) (js_div 100 (of_nat totalSteps))) st2,
                     settled[i := Some (Inr [(key (analysisSteps ! i), result)])]))
        else (st, settled))"

definition settle_all ::
  "engine \<Rightarrow> network \<Rightarrow> nat \<Rightarrow> ui \<Rightarrow> ui \<times> (js_error + (string \<times> json) list) option list" where
  "settle_all eng net totalSteps st =
     foldl (resume_step eng net totalSteps) (st, replicate (length analysisSteps) None)
       (arrivals net)"

text \<open>
  \<^verbatim>\<open>{ ...acc, ...value }\<close>: the properties of \<open>acc\<close>, then those of \<open>value\<close>, a name already
  present keeping its place and taking the new value.
\<close>

definition object_spread :: "(string \<times> json) list \<Rightarrow> (string \<times> json) list \<Rightarrow> (string \<times> json) list" where
  "object_spread acc v = foldl (\<lambda>a kv. AList.update (fst kv) (snd kv) a) acc v"

text \<open>The callback of \<^verbatim>\<open>settledResults.reduce\<close>.\<close>

definition reduce_step ::
  "(string \<times> json) list \<times> ui \<Rightarrow> js_error + (string \<times> json) list \<Rightarrow> (string \<times> json) list \<times> ui" where
  "reduce_step s result =
     (case s of (acc, st) \<Rightarrow>
        case result of
          Inr v \<Rightarrow> (object_spread acc v, st)
        | Inl reason \<Rightarrow>
            (acc, emit (ConsoleError [Str ''A part of the analysis failed:'', Err reason]) st))"

text \<open>
  From \<^verbatim>\<open>Promise.allSettled\<close> on: the outcomes in the order of the steps, the merge, and
  the end of the run.
\<close>

definition finish :: "(js_error + (string \<times> json) list) list \<Rightarrow> ui \<Rightarrow> ui" where
  "finish settledResults st =
     (case foldl reduce_step ([], st) settledResults of (finalResults, st1) \<Rightarrow>
        if length (map fst finalResults) = 0 then
          finally_block
            (catch_block (Error ''All analysis steps failed. Please check the server logs.'') st1)
        else finally_block (setProgress 100 (setResults (Some finalResults) st1)))"

text \<open>
  \<^verbatim>\<open>handleAnalyze\<close>. Where a reply never comes the run stays suspended, and the state
  returned is the state at that point.
\<close>

definition handleAnalyze :: "engine \<Rightarrow> network \<Rightarrow> ui \<Rightarrow> ui" where
  "handleAnalyze eng net st0 =
     (let st = emit PreventDefault st0 in
      if url st = [] then setError (Some (Text ''Please enter a product URL.'')) st
      else
        let st = setProgress 0 (setResults None (setError None (setIsLoading True st)));
            totalSteps = length analysisSteps + 1;
            st = setLoadingStage ''1/6 - Parsing website content...'' st;
            st = emit (Fetch (API_BASE_URL @ ''/parse-website'') (url st)) st
        in case site_reply net of
             None \<Rightarrow> st
           | Some reply \<Rightarrow>
               (case parseWebsite eng reply of
                  Inl err \<Rightarrow> finally_block (catch_block err st)
                | Inr content \<Rightarrow>
                    let st = setProgress (js_div 100 (of_nat totalSteps)) st;
                        st = launch_all st
                    in case settle_all eng net totalSteps st of (st, settled) \<Rightarrow>
                         if list_all (\<lambda>p. p \<noteq> None) settled
                         then finish (map the settled) st
                         else st))"

section \<open>Reading a run\<close>

definition progress_values :: "event list \<Rightarrow> rat list" where
  "progress_values tr = concat (map (\<lambda>e. case e of SetProgress p \<Rightarrow> [p] | _ \<Rightarrow> []) tr)"

definition stage_labels :: "event list \<Rightarrow> string list" where
  "stage_labels tr = concat (map (\<lambda>e. case e of SetLoadingStage l \<Rightarrow> [l] | _ \<Rightarrow> []) tr)"

definition requests_to :: "string \<Rightarrow> event list \<Rightarrow> string list" where
  "requests_to path tr =
     concat (map (\<lambda>e. case e of Fetch u b \<Rightarrow> if u = API_BASE_URL @ path then [b] else [] | _ \<Rightarrow> []) tr)"

definition is_Resume :: "event \<Rightarrow> bool" where
  "is_Resume e = (case e of Resume i \<Rightarrow> True | _ \<Rightarrow> False)"

text \<open>
  Step \<open>i\<close> succeeds when \<^verbatim>\<open>fetchAnalysis\<close> returns on the reply to request \<open>i\<close>.
\<close>

definition step_ok :: "engine \<Rightarrow> network \<Rightarrow> nat \<Rightarrow> bool" where
  "step_ok eng net i = (case fst (fetchAnalysis eng (llm_reply net i)) of Inr v \<Rightarrow> True | Inl e \<Rightarrow> False)"

definition initial_ui :: "string \<Rightarrow> ui" where
  "initial_ui u =
     \<lparr>url = u, isLoading = False, loadingStage = [], progress = 0, error = None,
      results = None, trace = []\<rparr>"

text \<open>
  The result of step \<open>i\<close>, and the value its promise settles with: the error thrown, or the
  object \<^verbatim>\<open>{ [step.key]: result }\<close>.
\<close>

definition step_result :: "engine \<Rightarrow> network \<Rightarrow> nat \<Rightarrow> js_error + json" where
  "step_result eng net i = fst (fetchAnalysis eng (llm_reply net i))"

definition step_outcome :: "engine \<Rightarrow> network \<Rightarrow> nat \<Rightarrow> js_error + (string \<times> json) list" where
  "step_outcome eng net i =
     (case step_result eng net i of
        Inl e \<Rightarrow> Inl e
      | Inr r \<Rightarrow> Inr [(key (analysisSteps ! i), r)])"

text \<open>
  The report expected of a run: for each step that succeeds, in the order of the steps,
  its key with its result.
\<close>

definition succeeded_report :: "engine \<Rightarrow> network \<Rightarrow> (string \<times> json) list" where
  "succeeded_report eng net =
     concat (map (\<lambda>i. case step_result eng net i of
                        Inr v \<Rightarrow> [(key (analysisSteps ! i), v)]
                      | Inl e \<Rightarrow> []) [0..<5])"

text \<open>
  What is expected to happen while the replies come in, in the order \<open>is\<close>, when the
  progress is \<open>p\<close> and each succeeding step raises it by \<open>d\<close>: the reply to request \<open>i\<close> is
  handed over, \<^verbatim>\<open>fetchAnalysis\<close> writes what it logs, and then, at once and only if the step
  succeeds, the progress is set to its value so far plus \<open>d\<close>.
\<close>

fun settling :: "engine \<Rightarrow> network \<Rightarrow> rat \<Rightarrow> rat \<Rightarrow> nat list \<Rightarrow> event list" where
  "settling eng net d p [] = []"
| "settling eng net d p (i # is) =
     Resume i # snd (fetchAnalysis eng (llm_reply net i)) @
       (if step_ok eng net i
        then SetProgress (js_add p d) # settling eng net d (js_add p d) is
        else settling eng net d p is)"

text \<open>
  The state in which \<^verbatim>\<open>handleAnalyze\<close> suspends at \<^verbatim>\<open>await Promise.allSettled\<close>, after a
  successful extraction and the launch of the five steps.
\<close>

definition at_allSettled :: "ui \<Rightarrow> ui" where
  "at_allSettled st0 =
     launch_all
       (setProgress (js_div 100 6)
         (emit (Fetch (API_BASE_URL @ ''/parse-website'') (url st0))
           (setLoadingStage ''1/6 - Parsing website content...''
             (setProgress 0 (setResults None (setError None (setIsLoading True
               (emit PreventDefault st0))))))))"

text \<open>
  Of a list of promise states, the number of fulfilled ones; of a list of outcomes, the
  values of the fulfilled ones and the log lines of the rejected ones.
\<close>

definition fulfilled :: "(js_error + (string \<times> json) list) option \<Rightarrow> bool" where
  "fulfilled p = (case p of Some (Inr v) \<Rightarrow> True | _ \<Rightarrow> False)"

definition nsucc :: "(js_error + (string \<times> json) list) option list \<Rightarrow> nat" where
  "nsucc settled = length (filter fulfilled settled)"

definition fulfilled_values :: "(js_error + (string \<times> json) list) list \<Rightarrow> (string \<times> json) list list" where
  "fulfilled_values rs = concat (map (\<lambda>r. case r of Inr v \<Rightarrow> [v] | Inl e \<Rightarrow> []) rs)"

definition rejection_logs :: "(js_error + (string \<times> json) list) list \<Rightarrow> event list" where
  "rejection_logs rs =
     concat (map (\<lambda>r. case r of Inr v \<Rightarrow> []
        | Inl e \<Rightarrow> [ConsoleError [Str ''A part of the analysis failed:'', Err e]]) rs)"

section \<open>A sample engine and sample networks\<close>

text \<open>
  For concrete runs: an excerpt of \<^verbatim>\<open>JSON.parse\<close>, namely its value on six JSON texts; the
  other texts it is applied to in the runs below (such as \<^verbatim>\<open>{b} {}\<close> and \<^verbatim>\<open>{x}\<close>) are no
  JSON, and the excerpt rejects them as the built-in does. No number is rendered in
  these runs, and the rendering is left empty.
\<close>

definition sample_engine :: engine where
  \<open>sample_engine =
     \<lparr>JSON_parse = map_of
        [(''{}'', JObj []),
         (''null'', JNull),
         (''{"error":null}'', JObj [(''error'', JNull)]),
         (''{"error":"quota exceeded"}'', JObj [(''error'', JStr ''quota exceeded'')]),
         (''{"grade":"A"}'', JObj [(''grade'', JStr ''A'')]),
         (''{"answer":{"grade":"A"}}'', JObj [(''answer'', JObj [(''grade'', JStr ''A'')])])],
      Number_toString = (\<lambda>n. [])\<rparr>\<close>

text \<open>
  A network on which the extraction request is answered with status ok and body \<^verbatim>\<open>{}\<close>,
  the analysis requests listed in \<open>good\<close> are answered with a structured answer, the others
  with a failure status, and the replies arrive in the order \<open>order\<close>.
\<close>

definition sample_network :: "nat list \<Rightarrow> nat list \<Rightarrow> network" where
  \<open>sample_network good order =
     \<lparr>site_reply = Some (Response \<lparr>ok = True, body = Some ''{}''\<rparr>),
      llm_reply = (\<lambda>i. if i \<in> set good
                        then Response \<lparr>ok = True, body = Some ''{"answer":{"grade":"A"}}''\<rparr>
                        else Response \<lparr>ok = False, body = Some ''overloaded''\<rparr>),
      arrivals = order\<rparr>\<close>

section \<open>What the regular expression matches\<close>

text \<open>
  The match, when there is one, runs from the leftmost opening brace to the last closing
  brace after it, and there is none exactly when no closing brace follows an opening one.
\<close>

lemma star_rbrace_None_iff: "star_rbrace cs = None \<longleftrightarrow> CHR ''}'' \<notin> set cs"
  by (induction cs) (auto split: option.splits)

lemma star_rbrace_last:
  "CHR ''}'' \<notin> set post \<Longrightarrow> star_rbrace (mid @ CHR ''}'' # post) = Some (mid @ ''}'')"
proof (induction mid)
  case Nil
  then have "star_rbrace post = None" by (simp add: star_rbrace_None_iff)
  then show ?case by simp
next
  case (Cons c mid)
  then show ?case by simp
qed

lemma match_braces_skip:
  "CHR ''{'' \<notin> set pre \<Longrightarrow> match_braces (pre @ s) = match_braces s"
  by (induction pre) (auto simp: match_here_def)

lemma match_braces_span:
  assumes "CHR ''{'' \<notin> set pre" and "CHR ''}'' \<notin> set post"
  shows "match_braces (pre @ CHR ''{'' # mid @ CHR ''}'' # post) = Some (CHR ''{'' # mid @ ''}'')"
proof -
  have "match_here (CHR ''{'' # mid @ CHR ''}'' # post) = Some (CHR ''{'' # mid @ ''}'')"
    using assms(2) by (simp add: match_here_def star_rbrace_last)
  then have "match_braces (CHR ''{'' # mid @ CHR ''}'' # post) = Some (CHR ''{'' # mid @ ''}'')"
    by simp
  with assms(1) show ?thesis by (simp add: match_braces_skip)
qed

lemma match_braces_found:
  "match_braces (pre @ CHR ''{'' # mid @ CHR ''}'' # post) \<noteq> None"
proof (induction pre)
  case Nil
  have "star_rbrace (mid @ CHR ''}'' # post) \<noteq> None"
    by (simp add: star_rbrace_None_iff)
  then show ?case by (auto simp: match_here_def)
next
  case (Cons c pre)
  then show ?case by (auto split: option.splits)
qed

lemma match_braces_Some_split:
  "match_braces t = Some m \<Longrightarrow> \<exists>pre mid post. t = pre @ CHR ''{'' # mid @ CHR ''}'' # post"
proof (induction t)
  case Nil
  then show ?case by simp
next
  case (Cons c cs)
  show ?case
  proof (cases "match_here (c # cs)")
    case None
    with Cons.prems have "match_braces cs = Some m" by simp
    from Cons.IH[OF this] obtain pre mid post
      where "cs = pre @ CHR ''{'' # mid @ CHR ''}'' # post" by blast
    then have "c # cs = (c # pre) @ CHR ''{'' # mid @ CHR ''}'' # post" by simp
    then show ?thesis by blast
  next
    case (Some m')
    then have c: "c = CHR ''{''" and "star_rbrace cs \<noteq> None"
      by (auto simp: match_here_def split: if_splits)
    then have "CHR ''}'' \<in> set cs" by (simp add: star_rbrace_None_iff)
    then obtain mid post where "cs = mid @ CHR ''}'' # post"
      by (auto dest: split_list)
    with c have "c # cs = [] @ CHR ''{'' # mid @ CHR ''}'' # post" by simp
    then show ?thesis by blast
  qed
qed

lemma match_braces_None_iff:
  "match_braces t = None \<longleftrightarrow> (\<nexists>pre mid post. t = pre @ CHR ''{'' # mid @ CHR ''}'' # post)"
proof
  assume "match_braces t = None"
  then show "\<nexists>pre mid post. t = pre @ CHR ''{'' # mid @ CHR ''}'' # post"
    using match_braces_found by blast
next
  assume "\<nexists>pre mid post. t = pre @ CHR ''{'' # mid @ CHR ''}'' # post"
  then show "match_braces t = None"
    using match_braces_Some_split by (cases "match_braces t") blast+
qed

section \<open>Coercion of an analysis answer\<close>

text \<open>
  Claim C6, as stated, does not hold: a text may hold exactly one well-formed JSON object
  and still not be coerced to it. In \<^verbatim>\<open>Set {x}: {"grade":"A"}\<close> the only JSON object is
  \<^verbatim>\<open>{"grade":"A"}\<close>, but the match starts at the brace of \<^verbatim>\<open>{x}\<close>, the matched text
  \<^verbatim>\<open>{x}: {"grade":"A"}\<close> is no JSON, and the coercion throws.
\<close>

theorem coerce_roundtrip_counterexample:
  \<open>JSON_parse sample_engine ''{"grade":"A"}'' = Some (JObj [(''grade'', JStr ''A'')]) \<and>
   JSON_parse sample_engine ''{x}'' = None \<and>
   coerce sample_engine (JObj [(''answer'', JStr ''Set {x}: {"grade":"A"}'')]) =
     (Inl (Error ''Invalid JSON format received from the server.''),
      [ConsoleError [Str ''JSON parsing error:'', Err SyntaxError, Str ''Raw response:'',
         Val (Some (JStr ''Set {x}: {"grade":"A"}''))]])\<close>
  by (simp add: sample_engine_def coerce_def coerce_try_def match_here_def)

text \<open>
  Claim C6, amended: when the answer is a text made of one JSON object and prose around
  it, with no opening brace in the prose before the object and no closing brace in the
  prose after it, the coercion returns what parsing the object returns; and an answer
  whose \<^verbatim>\<open>typeof\<close> is \<^verbatim>\<open>object\<close> is returned unchanged, whatever its shape. Nothing is
  logged in either case.
\<close>

theorem coerce_roundtrip:
  assumes "get_prop data ''answer'' = Inr (Some a)"
    and "typeof_object (Some a) \<and> v = a \<or>
         (\<exists>pre mid post. a = JStr (pre @ CHR ''{'' # mid @ CHR ''}'' # post) \<and>
            CHR ''{'' \<notin> set pre \<and> CHR ''}'' \<notin> set post \<and>
            JSON_parse eng (CHR ''{'' # mid @ ''}'') = Some v)"
  shows "coerce eng data = (Inr v, [])"
  using assms(2)
proof
  assume "typeof_object (Some a) \<and> v = a"
  with assms(1) show ?thesis by (simp add: coerce_def coerce_try_def)
next
  assume "\<exists>pre mid post. a = JStr (pre @ CHR ''{'' # mid @ CHR ''}'' # post) \<and>
            CHR ''{'' \<notin> set pre \<and> CHR ''}'' \<notin> set post \<and>
            JSON_parse eng (CHR ''{'' # mid @ ''}'') = Some v"
  then obtain pre mid post where a: "a = JStr (pre @ CHR ''{'' # mid @ CHR ''}'' # post)"
    and "CHR ''{'' \<notin> set pre" "CHR ''}'' \<notin> set post"
    and p: "JSON_parse eng (CHR ''{'' # mid @ ''}'') = Some v" by blast
  then have "match_braces (pre @ CHR ''{'' # mid @ CHR ''}'' # post) = Some (CHR ''{'' # mid @ ''}'')"
    by (simp add: match_braces_span)
  with assms(1) a p show ?thesis by (simp add: coerce_def coerce_try_def)
qed

text \<open>
  The amended claim C6 at two answers: a text with prose on both sides of an object, and
  an array.
\<close>

theorem coerce_roundtrip_witness:
  \<open>coerce sample_engine (JObj [(''answer'', JStr ''Result: {"grade":"A"} Thanks'')]) =
     (Inr (JObj [(''grade'', JStr ''A'')]), [])
   \<and> coerce sample_engine (JObj [(''answer'', JArr [JNum 1, JNull])]) =
     (Inr (JArr [JNum 1, JNull]), [])\<close>
proof -
  have g1: \<open>get_prop (JObj [(''answer'', JStr ''Result: {"grade":"A"} Thanks'')]) ''answer'' =
        Inr (Some (JStr ''Result: {"grade":"A"} Thanks''))\<close>
    by simp
  have \<open>JStr ''Result: {"grade":"A"} Thanks'' =
          JStr (''Result: '' @ CHR ''{'' # ''"grade":"A"'' @ CHR ''}'' # '' Thanks'') \<and>
        CHR ''{'' \<notin> set ''Result: '' \<and> CHR ''}'' \<notin> set '' Thanks'' \<and>
        JSON_parse sample_engine (CHR ''{'' # ''"grade":"A"'' @ ''}'') =
          Some (JObj [(''grade'', JStr ''A'')])\<close>
    by (simp add: sample_engine_def)
  then have h1: \<open>typeof_object (Some (JStr ''Result: {"grade":"A"} Thanks'')) \<and>
          JObj [(''grade'', JStr ''A'')] = JStr ''Result: {"grade":"A"} Thanks'' \<or>
         (\<exists>pre mid post. JStr ''Result: {"grade":"A"} Thanks'' =
              JStr (pre @ CHR ''{'' # mid @ CHR ''}'' # post) \<and>
            CHR ''{'' \<notin> set pre \<and> CHR ''}'' \<notin> set post \<and>
            JSON_parse sample_engine (CHR ''{'' # mid @ ''}'') =
              Some (JObj [(''grade'', JStr ''A'')]))\<close>
    by blast
  have g2: "get_prop (JObj [(''answer'', JArr [JNum 1, JNull])]) ''answer'' =
        Inr (Some (JArr [JNum 1, JNull]))"
    by simp
  have h2: "typeof_object (Some (JArr [JNum 1, JNull])) \<and> JArr [JNum 1, JNull] = JArr [JNum 1, JNull] \<or>
         (\<exists>pre mid post. JArr [JNum 1, JNull] = JStr (pre @ CHR ''{'' # mid @ CHR ''}'' # post) \<and>
            CHR ''{'' \<notin> set pre \<and> CHR ''}'' \<notin> set post \<and>
            JSON_parse sample_engine (CHR ''{'' # mid @ ''}'') = Some (JArr [JNum 1, JNull]))"
    by simp
  show ?thesis
    using coerce_roundtrip [OF g1 h1] coerce_roundtrip [OF g2 h2] by simp
qed

text \<open>
  Claim C7: when the answer is a text in which no closing brace follows an opening brace,
  or in which the text from the leftmost opening brace to the rightmost closing brace is
  rejected by \<^verbatim>\<open>JSON.parse\<close>, the coercion throws the error
  \<^verbatim>\<open>Invalid JSON format received from the server.\<close>, and before that it has written one
  line to \<^verbatim>\<open>console.error\<close> that carries the original answer text.
\<close>

theorem coerce_malformed:
  assumes "get_prop data ''answer'' = Inr (Some (JStr t))"
    and "(\<nexists>pre mid post. t = pre @ CHR ''{'' # mid @ CHR ''}'' # post) \<or>
         (\<exists>pre mid post. t = pre @ CHR ''{'' # mid @ CHR ''}'' # post \<and>
            CHR ''{'' \<notin> set pre \<and> CHR ''}'' \<notin> set post \<and>
            JSON_parse eng (CHR ''{'' # mid @ ''}'') = None)"
  shows "coerce eng data =
           (Inl (Error ''Invalid JSON format received from the server.''),
            [ConsoleError
               [Str ''JSON parsing error:'',
                Err (if match_braces t = None then Error ''No valid JSON found in LLM response.''
                     else SyntaxError),
                Str ''Raw response:'', Val (Some (JStr t))]])"
  using assms(2)
proof
  assume "\<nexists>pre mid post. t = pre @ CHR ''{'' # mid @ CHR ''}'' # post"
  then have "match_braces t = None" by (simp add: match_braces_None_iff)
  with assms(1) show ?thesis by (simp add: coerce_def coerce_try_def)
next
  assume "\<exists>pre mid post. t = pre @ CHR ''{'' # mid @ CHR ''}'' # post \<and>
            CHR ''{'' \<notin> set pre \<and> CHR ''}'' \<notin> set post \<and>
            JSON_parse eng (CHR ''{'' # mid @ ''}'') = None"
  then obtain pre mid post where t: "t = pre @ CHR ''{'' # mid @ CHR ''}'' # post"
    and "CHR ''{'' \<notin> set pre" "CHR ''}'' \<notin> set post"
    and p: "JSON_parse eng (CHR ''{'' # mid @ ''}'') = None" by blast
  then have "match_braces t = Some (CHR ''{'' # mid @ ''}'')"
    by (simp add: match_braces_span)
  with assms(1) p show ?thesis by (simp add: coerce_def coerce_try_def)
qed

text \<open>
  Claim C7 at two answers: one whose braces enclose no JSON, one with no pair of braces.
\<close>

theorem coerce_malformed_witness:
  \<open>coerce sample_engine (JObj [(''answer'', JStr ''a {b} {}'')]) =
     (Inl (Error ''Invalid JSON format received from the server.''),
      [ConsoleError [Str ''JSON parsing error:'', Err SyntaxError, Str ''Raw response:'',
         Val (Some (JStr ''a {b} {}''))]])
   \<and> coerce sample_engine (JObj [(''answer'', JStr ''} none {'')]) =
     (Inl (Error ''Invalid JSON format received from the server.''),
      [ConsoleError [Str ''JSON parsing error:'',
         Err (Error ''No valid JSON found in LLM response.''), Str ''Raw response:'',
         Val (Some (JStr ''} none {''))]])\<close>
proof -
  have g1: "get_prop (JObj [(''answer'', JStr ''a {b} {}'')]) ''answer'' = Inr (Some (JStr ''a {b} {}''))"
    by simp
  have "''a {b} {}'' = ''a '' @ CHR ''{'' # ''b} {'' @ CHR ''}'' # [] \<and>
        CHR ''{'' \<notin> set ''a '' \<and> CHR ''}'' \<notin> set ([] :: string) \<and>
        JSON_parse sample_engine (CHR ''{'' # ''b} {'' @ ''}'') = None"
    by (simp add: sample_engine_def)
  then have h1: "(\<nexists>pre mid post. ''a {b} {}'' = pre @ CHR ''{'' # mid @ CHR ''}'' # post) \<or>
         (\<exists>pre mid post. ''a {b} {}'' = pre @ CHR ''{'' # mid @ CHR ''}'' # post \<and>
            CHR ''{'' \<notin> set pre \<and> CHR ''}'' \<notin> set post \<and>
            JSON_parse sample_engine (CHR ''{'' # mid @ ''}'') = None)"
    by blast
  have g2: "get_prop (JObj [(''answer'', JStr ''} none {'')]) ''answer'' = Inr (Some (JStr ''} none {''))"
    by simp
  have "match_braces ''} none {'' = None"
    by (simp add: match_here_def)
  then have "\<nexists>pre mid post. ''} none {'' = pre @ CHR ''{'' # mid @ CHR ''}'' # post"
    using match_braces_None_iff by blast
  then have h2: "(\<nexists>pre mid post. ''} none {'' = pre @ CHR ''{'' # mid @ CHR ''}'' # post) \<or>
         (\<exists>pre mid post. ''} none {'' = pre @ CHR ''{'' # mid @ CHR ''}'' # post \<and>
            CHR ''{'' \<notin> set pre \<and> CHR ''}'' \<notin> set post \<and>
            JSON_parse sample_engine (CHR ''{'' # mid @ ''}'') = None)"
    by (rule disjI1)
  show ?thesis
    using coerce_malformed [OF g1 h1] coerce_malformed [OF g2 h2]
    by (simp add: match_here_def)
qed

section \<open>The extraction request\<close>

text \<open>
  On a response that is not \<^verbatim>\<open>ok\<close>, the error thrown carries the server's text when the
  body is a JSON object whose \<^verbatim>\<open>error\<close> is a string, and the stock text when the body is no
  JSON.
\<close>

lemma parseWebsite_server_message:
  assumes "\<not> ok r" and "response_json eng r = Inr (JObj kvs)"
    and "map_of kvs ''error'' = Some (JStr m)"
  shows "parseWebsite eng (Response r) = Inl (Error m)"
  using assms by (simp add: parseWebsite_def new_Error_def)

lemma parseWebsite_unparsable_body:
  assumes "\<not> ok r" and "response_json eng r = Inl e"
  shows "parseWebsite eng (Response r) = Inl (Error ''Failed to parse website content.'')"
  using assms by (simp add: parseWebsite_def new_Error_def)


text \<open>
  On a response that is not \<^verbatim>\<open>ok\<close> and whose body is the JSON text \<^verbatim>\<open>{}\<close>, the body
  parses, so the stock object is not substituted; its \<^verbatim>\<open>error\<close> property is
  \<^verbatim>\<open>undefined\<close>, and the error thrown has the empty message.
\<close>

lemma parseWebsite_no_error_field:
  \<open>parseWebsite sample_engine (Response \<lparr>ok = False, body = Some ''{}''\<rparr>) = Inl (Error [])\<close>
  by (simp add: parseWebsite_def response_json_def sample_engine_def new_Error_def)

section \<open>The run\<close>

text \<open>
  Claim C9: with the empty URL the run sets the error \<^verbatim>\<open>Please enter a product URL.\<close>
  and returns; nothing else in the state changes, and no request is sent to either
  endpoint.
\<close>

theorem handleAnalyze_empty_url:
  assumes "url st = []"
  shows "handleAnalyze eng net st =
           st\<lparr>error := Some (Text ''Please enter a product URL.''),
              trace := trace st @ [PreventDefault, SetError (Some (Text ''Please enter a product URL.''))]\<rparr>
         \<and> requests_to ''/parse-website'' (trace (handleAnalyze eng net st)) = requests_to ''/parse-website'' (trace st)
         \<and> requests_to ''/llm-call'' (trace (handleAnalyze eng net st)) = requests_to ''/llm-call'' (trace st)"
  using assms by (simp add: handleAnalyze_def Let_def emit_def setError_def requests_to_def)

text \<open>Claim C9 on the initial state of the component.\<close>

theorem handleAnalyze_empty_url_witness:
  "url (initial_ui []) = [] \<and>
   handleAnalyze sample_engine (sample_network [0, 1] [0, 1, 2, 3, 4]) (initial_ui []) =
     (initial_ui [])\<lparr>error := Some (Text ''Please enter a product URL.''),
        trace := [PreventDefault, SetError (Some (Text ''Please enter a product URL.''))]\<rparr>"
proof -
  have u: "url (initial_ui []) = []" by (simp add: initial_ui_def)
  show ?thesis
    using u handleAnalyze_empty_url [OF u, of sample_engine "sample_network [0, 1] [0, 1, 2, 3, 4]"]
    by (simp add: initial_ui_def)
qed

text \<open>
  Claim C2: with a non-empty URL, when \<^verbatim>\<open>parseWebsite\<close> throws, the run ends with the
  error of the extraction as its error (its message, or \<^verbatim>\<open>An unknown error occurred.\<close>
  when that message is empty), with no results and with loading switched off; the only
  request of the run is the extraction request, so no analysis request is sent.
\<close>

theorem handleAnalyze_extraction_fails:
  assumes "url st \<noteq> []"
    and "site_reply net = Some reply"
    and "parseWebsite eng reply = Inl err"
  shows "error (handleAnalyze eng net st) = Some (message_or_unknown err)
       \<and> results (handleAnalyze eng net st) = None
       \<and> isLoading (handleAnalyze eng net st) = False
       \<and> trace (handleAnalyze eng net st) =
           trace st @
             [PreventDefault, SetIsLoading True, SetError None, SetResults None, SetProgress 0,
              SetLoadingStage ''1/6 - Parsing website content...'',
              Fetch (API_BASE_URL @ ''/parse-website'') (url st),
              SetError (Some (message_or_unknown err)), SetIsLoading False]
       \<and> requests_to ''/llm-call'' (trace (handleAnalyze eng net st)) =
           requests_to ''/llm-call'' (trace st)"
  using assms
  by (simp add: handleAnalyze_def Let_def emit_def setError_def setIsLoading_def setResults_def
      setProgress_def setLoadingStage_def catch_block_def finally_block_def requests_to_def
      API_BASE_URL_def)

text \<open>
  Claim C2 on a run whose extraction request is refused with a message from the server.
\<close>

theorem handleAnalyze_extraction_fails_witness:
  \<open>parseWebsite sample_engine (Response \<lparr>ok = False, body = Some ''{"error":"quota exceeded"}''\<rparr>) =
     Inl (Error ''quota exceeded'') \<and>
   error (handleAnalyze sample_engine
      ((sample_network [0, 1, 2, 3, 4] [0, 1, 2, 3, 4])
         \<lparr>site_reply := Some (Response \<lparr>ok = False, body = Some ''{"error":"quota exceeded"}''\<rparr>)\<rparr>)
      (initial_ui ''https://example.com/p1'')) = Some (Text ''quota exceeded'') \<and>
   requests_to ''/llm-call'' (trace (handleAnalyze sample_engine
      ((sample_network [0, 1, 2, 3, 4] [0, 1, 2, 3, 4])
         \<lparr>site_reply := Some (Response \<lparr>ok = False, body = Some ''{"error":"quota exceeded"}''\<rparr>)\<rparr>)
      (initial_ui ''https://example.com/p1''))) = []\<close>
proof -
  have p: \<open>parseWebsite sample_engine (Response \<lparr>ok = False, body = Some ''{"error":"quota exceeded"}''\<rparr>) =
     Inl (Error ''quota exceeded'')\<close>
    by (simp add: parseWebsite_def response_json_def sample_engine_def new_Error_def)
  have u: "url (initial_ui ''https://example.com/p1'') \<noteq> []" by (simp add: initial_ui_def)
  have s: \<open>site_reply ((sample_network [0, 1, 2, 3, 4] [0, 1, 2, 3, 4])
         \<lparr>site_reply := Some (Response \<lparr>ok = False, body = Some ''{"error":"quota exceeded"}''\<rparr>)\<rparr>) =
       Some (Response \<lparr>ok = False, body = Some ''{"error":"quota exceeded"}''\<rparr>)\<close>
    by simp
  show ?thesis
    using p handleAnalyze_extraction_fails [OF u s p]
    by (simp add: initial_ui_def message_or_unknown_def requests_to_def)
qed

text \<open>
  The error a run ends with when the extraction fails. For the body \<^verbatim>\<open>{}\<close> of above, whose
  error has the empty message, the handler of the run puts in its own stock text.
\<close>

lemma run_extraction_error:
  assumes "url st \<noteq> []" and "site_reply net = Some reply"
    and "parseWebsite eng reply = Inl err"
  shows "error (handleAnalyze eng net st) = Some (message_or_unknown err)"
  using assms
  by (simp add: handleAnalyze_def Let_def emit_def setError_def setIsLoading_def setResults_def
      setProgress_def setLoadingStage_def catch_block_def finally_block_def)

lemma run_empty_object_body:
  \<open>error (handleAnalyze sample_engine
        ((sample_network [0, 1, 2, 3, 4] [0, 1, 2, 3, 4])
           \<lparr>site_reply := Some (Response \<lparr>ok = False, body = Some ''{}''\<rparr>)\<rparr>)
        (initial_ui ''https://example.com/p1'')) = Some (Text ''An unknown error occurred.'')\<close>
proof -
  have u: "url (initial_ui ''https://example.com/p1'') \<noteq> []" by (simp add: initial_ui_def)
  have s: "site_reply ((sample_network [0, 1, 2, 3, 4] [0, 1, 2, 3, 4])\<lparr>site_reply := Some r\<rparr>) = Some r" for r
    by simp
  show ?thesis
    using run_extraction_error [OF u s parseWebsite_no_error_field]
    by (simp add: message_or_unknown_def)
qed

text \<open>
  Claim C8 fails on the code. On a response that is not \<^verbatim>\<open>ok\<close> and whose body is the
  JSON text \<^verbatim>\<open>{"error":null}\<close>, the body parses, so the stock object is not substituted;
  the error thrown has the message \<^verbatim>\<open>null\<close>, which is not empty, so the handler of the run
  does not put in its stock text either, and the run ends with the error text
  \<^verbatim>\<open>null\<close>. On the body \<^verbatim>\<open>null\<close> the read of \<^verbatim>\<open>errorData.error\<close> throws a TypeError, and
  the run ends with the wording of the engine for it. In neither case is the error a
  message of the server or a generic one.
\<close>

theorem extraction_error_not_generic:
  \<open>parseWebsite sample_engine (Response \<lparr>ok = False, body = Some ''{"error":null}''\<rparr>) =
     Inl (Error ''null'')
   \<and> error (handleAnalyze sample_engine
        ((sample_network [0, 1, 2, 3, 4] [0, 1, 2, 3, 4])
           \<lparr>site_reply := Some (Response \<lparr>ok = False, body = Some ''{"error":null}''\<rparr>)\<rparr>)
        (initial_ui ''https://example.com/p1'')) = Some (Text ''null'')
   \<and> parseWebsite sample_engine (Response \<lparr>ok = False, body = Some ''null''\<rparr>) = Inl TypeError
   \<and> error (handleAnalyze sample_engine
        ((sample_network [0, 1, 2, 3, 4] [0, 1, 2, 3, 4])
           \<lparr>site_reply := Some (Response \<lparr>ok = False, body = Some ''null''\<rparr>)\<rparr>)
        (initial_ui ''https://example.com/p1'')) = Some (EngineMessage TypeError)\<close>
proof -
  let ?st = "initial_ui ''https://example.com/p1''"
  have u: "url ?st \<noteq> []" by (simp add: initial_ui_def)
  have p1: \<open>parseWebsite sample_engine (Response \<lparr>ok = False, body = Some ''{"error":null}''\<rparr>) =
     Inl (Error ''null'')\<close>
    by (simp add: parseWebsite_def response_json_def sample_engine_def new_Error_def)
  have p2: \<open>parseWebsite sample_engine (Response \<lparr>ok = False, body = Some ''null''\<rparr>) = Inl TypeError\<close>
    by (simp add: parseWebsite_def response_json_def sample_engine_def)
  have s: "site_reply ((sample_network [0, 1, 2, 3, 4] [0, 1, 2, 3, 4])\<lparr>site_reply := Some r\<rparr>) = Some r" for r
    by simp
  have e1: \<open>error (handleAnalyze sample_engine
        ((sample_network [0, 1, 2, 3, 4] [0, 1, 2, 3, 4])
           \<lparr>site_reply := Some (Response \<lparr>ok = False, body = Some ''{"error":null}''\<rparr>)\<rparr>) ?st) =
       Some (Text ''null'')\<close>
    using run_extraction_error [OF u s p1] by (simp add: message_or_unknown_def)
  have e2: \<open>error (handleAnalyze sample_engine
        ((sample_network [0, 1, 2, 3, 4] [0, 1, 2, 3, 4])
           \<lparr>site_reply := Some (Response \<lparr>ok = False, body = Some ''null''\<rparr>)\<rparr>) ?st) =
       Some (EngineMessage TypeError)\<close>
    using run_extraction_error [OF u s p2] by (simp add: message_or_unknown_def)
  from p1 p2 e1 e2 show ?thesis by simp
qed

section \<open>Up to the suspension at \<^verbatim>\<open>Promise.allSettled\<close>\<close>

lemma length_analysisSteps: "length analysisSteps = 5"
  by (simp add: analysisSteps_def)

lemma handleAnalyze_analyzing:
  assumes "url st \<noteq> []" and "site_reply net = Some reply"
    and "parseWebsite eng reply = Inr content"
  shows "handleAnalyze eng net st =
           (case settle_all eng net 6 (at_allSettled st) of (st', settled) \<Rightarrow>
              if list_all (\<lambda>p. p \<noteq> None) settled then finish (map the settled) st' else st')"
  using assms
  by (simp add: handleAnalyze_def Let_def at_allSettled_def length_analysisSteps emit_def
      setError_def setIsLoading_def setResults_def setProgress_def setLoadingStage_def)

lemma launch_fold_trace:
  "trace (foldl (\<lambda>s step. launch_step step s) st steps) =
     trace st @ concat (map (\<lambda>step. [SetLoadingStage (stage step),
        Fetch (API_BASE_URL @ ''/llm-call'')
          (query (prompt step) @ [CHR 0x0A, CHR 0x0A] @ expectedFormat (prompt step))]) steps)"
  by (induction steps arbitrary: st) (simp_all add: launch_step_def emit_def setLoadingStage_def)

lemma launch_fold_fields:
  "progress (foldl (\<lambda>s step. launch_step step s) st steps) = progress st \<and>
   error (foldl (\<lambda>s step. launch_step step s) st steps) = error st \<and>
   results (foldl (\<lambda>s step. launch_step step s) st steps) = results st \<and>
   isLoading (foldl (\<lambda>s step. launch_step step s) st steps) = isLoading st \<and>
   url (foldl (\<lambda>s step. launch_step step s) st steps) = url st"
  by (induction steps arbitrary: st) (simp_all add: launch_step_def emit_def setLoadingStage_def)

lemma launch_fold_stage:
  "loadingStage (foldl (\<lambda>s step. launch_step step s) st steps) =
     (if steps = [] then loadingStage st else stage (last steps))"
  by (induction steps arbitrary: st) (simp_all add: launch_step_def emit_def setLoadingStage_def)

lemma at_allSettled_trace:
  "trace (at_allSettled st) =
     trace st @
       [PreventDefault, SetIsLoading True, SetError None, SetResults None, SetProgress 0,
        SetLoadingStage ''1/6 - Parsing website content...'',
        Fetch (API_BASE_URL @ ''/parse-website'') (url st),
        SetProgress (js_div 100 6)] @
       concat (map (\<lambda>step. [SetLoadingStage (stage step),
        Fetch (API_BASE_URL @ ''/llm-call'')
          (query (prompt step) @ [CHR 0x0A, CHR 0x0A] @ expectedFormat (prompt step))]) analysisSteps)"
  by (simp add: at_allSettled_def launch_all_def launch_fold_trace emit_def
      setError_def setIsLoading_def setResults_def setProgress_def setLoadingStage_def)

lemma at_allSettled_fields:
  "progress (at_allSettled st) = js_div 100 6 \<and> error (at_allSettled st) = None \<and>
   results (at_allSettled st) = None \<and> isLoading (at_allSettled st) = True \<and>
   url (at_allSettled st) = url st \<and>
   loadingStage (at_allSettled st) = ''6/6 - Extracting nutrition facts...''"
  by (simp add: at_allSettled_def launch_all_def launch_fold_fields launch_fold_stage emit_def
      setError_def setIsLoading_def setResults_def setProgress_def setLoadingStage_def)
     (simp add: analysisSteps_def)

section \<open>Replies arriving\<close>

lemma stage_labels_append: "stage_labels (a @ b) = stage_labels a @ stage_labels b"
  by (simp add: stage_labels_def)

lemma progress_values_append: "progress_values (a @ b) = progress_values a @ progress_values b"
  by (simp add: progress_values_def)

lemma requests_to_append: "requests_to p (a @ b) = requests_to p a @ requests_to p b"
  by (simp add: requests_to_def)

lemma fetchAnalysis_logs:
  "snd (fetchAnalysis eng r) = [] \<or> (\<exists>args. snd (fetchAnalysis eng r) = [ConsoleError args])"
  by (auto simp: fetchAnalysis_def coerce_def response_text_def
      split: fetch_outcome.splits sum.splits option.splits)

lemma fetchAnalysis_logs_silent:
  "stage_labels (snd (fetchAnalysis eng r)) = [] \<and>
   progress_values (snd (fetchAnalysis eng r)) = [] \<and>
   requests_to p (snd (fetchAnalysis eng r)) = [] \<and>
   filter is_Resume (snd (fetchAnalysis eng r)) = []"
  using fetchAnalysis_logs [of eng r]
  by (auto simp: stage_labels_def progress_values_def requests_to_def is_Resume_def)

lemma resume_step_settled:
  "snd (resume_step eng net T (st, settled) i) =
     (if i < length settled \<and> settled ! i = None
      then settled[i := Some (step_outcome eng net i)] else settled)"
  by (auto simp: resume_step_def step_outcome_def step_result_def Let_def
      split: prod.splits sum.splits)

lemma resume_step_fields:
  "error (fst (resume_step eng net T (st, settled) i)) = error st \<and>
   results (fst (resume_step eng net T (st, settled) i)) = results st \<and>
   url (fst (resume_step eng net T (st, settled) i)) = url st \<and>
   isLoading (fst (resume_step eng net T (st, settled) i)) = isLoading st \<and>
   loadingStage (fst (resume_step eng net T (st, settled) i)) = loadingStage st"
  by (auto simp: resume_step_def Let_def emit_def setProgress_def split: prod.splits sum.splits)

lemma resume_step_progress:
  "progress (fst (resume_step eng net T (st, settled) i)) =
     (if i < length settled \<and> settled ! i = None \<and> fulfilled (Some (step_outcome eng net i))
      then js_add (progress st) (js_div 100 (of_nat T)) else progress st)"
  by (auto simp: resume_step_def Let_def emit_def setProgress_def fulfilled_def
      step_outcome_def step_result_def split: prod.splits sum.splits)

lemma resume_step_trace:
  "\<exists>ev. trace (fst (resume_step eng net T (st, settled) i)) = trace st @ ev \<and>
        stage_labels ev = [] \<and> requests_to p ev = [] \<and>
        progress_values ev =
          (if i < length settled \<and> settled ! i = None \<and> fulfilled (Some (step_outcome eng net i))
           then [js_add (progress st) (js_div 100 (of_nat T))] else [])"
proof (cases "i < length settled \<and> settled ! i = None")
  case False
  then show ?thesis by (auto simp: resume_step_def stage_labels_def requests_to_def progress_values_def)
next
  case True
  obtain r logs where f: "fetchAnalysis eng (llm_reply net i) = (r, logs)"
    by (cases "fetchAnalysis eng (llm_reply net i)")
  have silent: "stage_labels logs = []" "progress_values logs = []" "requests_to p logs = []"
    using fetchAnalysis_logs_silent [of eng "llm_reply net i" p] f by simp_all
  show ?thesis
  proof (cases r)
    case (Inl e)
    with True f have "trace (fst (resume_step eng net T (st, settled) i)) = trace st @ (Resume i # logs)"
      by (simp add: resume_step_def Let_def emit_def)
    moreover have "\<not> fulfilled (Some (step_outcome eng net i))"
      using f Inl by (simp add: fulfilled_def step_outcome_def step_result_def)
    ultimately show ?thesis using silent
      by (auto simp: stage_labels_def requests_to_def progress_values_def)
  next
    case (Inr v)
    with True f have "trace (fst (resume_step eng net T (st, settled) i)) =
        trace st @ (Resume i # logs @ [SetProgress (js_add (progress st) (js_div 100 (of_nat T)))])"
      by (simp add: resume_step_def Let_def emit_def setProgress_def)
    moreover have "fulfilled (Some (step_outcome eng net i))"
      using f Inr by (simp add: fulfilled_def step_outcome_def step_result_def)
    ultimately show ?thesis using silent True
      by (auto simp: stage_labels_def requests_to_def progress_values_def)
  qed
qed

lemma settle_length:
  "length (snd (foldl (resume_step eng net T) s as)) = length (snd s)"
proof (induction as arbitrary: s)
  case Nil
  then show ?case by simp
next
  case (Cons a as)
  obtain st settled where s: "s = (st, settled)" by (cases s)
  show ?case using Cons.IH [of "resume_step eng net T s a"] resume_step_settled [of eng net T st settled a]
    by (simp add: s)
qed

lemma settle_nth:
  "j < length (snd s) \<Longrightarrow>
   snd (foldl (resume_step eng net T) s as) ! j =
     (case snd s ! j of
        Some x \<Rightarrow> Some x
      | None \<Rightarrow> if j \<in> set as then Some (step_outcome eng net j) else None)"
proof (induction as arbitrary: s)
  case Nil
  then show ?case by (simp split: option.splits)
next
  case (Cons a as)
  obtain st settled where s: "s = (st, settled)" by (cases s)
  let ?s' = "resume_step eng net T s a"
  have len: "length (snd ?s') = length settled"
    using resume_step_settled [of eng net T st settled a] by (simp add: s)
  with Cons.prems s have j: "j < length (snd ?s')" by simp
  have nth: "snd ?s' ! j =
      (if a = j \<and> settled ! j = None then Some (step_outcome eng net j) else settled ! j)"
    using resume_step_settled [of eng net T st settled a] Cons.prems s
    by (auto simp: nth_list_update)
  show ?case
    using Cons.IH [OF j] nth s by (auto split: option.splits)
qed

lemma settle_fields:
  "error (fst (foldl (resume_step eng net T) s as)) = error (fst s) \<and>
   results (fst (foldl (resume_step eng net T) s as)) = results (fst s) \<and>
   url (fst (foldl (resume_step eng net T) s as)) = url (fst s) \<and>
   isLoading (fst (foldl (resume_step eng net T) s as)) = isLoading (fst s) \<and>
   loadingStage (fst (foldl (resume_step eng net T) s as)) = loadingStage (fst s)"
proof (induction as arbitrary: s)
  case Nil
  then show ?case by simp
next
  case (Cons a as)
  obtain st settled where s: "s = (st, settled)" by (cases s)
  show ?case
    using Cons.IH [of "resume_step eng net T s a"] resume_step_fields [of eng net T st settled a]
    by (simp add: s)
qed

lemma settle_trace:
  "\<exists>ev. trace (fst (foldl (resume_step eng net T) s as)) = trace (fst s) @ ev \<and>
        stage_labels ev = [] \<and> requests_to p ev = []"
proof (induction as arbitrary: s)
  case Nil
  then show ?case by (simp add: stage_labels_def requests_to_def)
next
  case (Cons a as)
  obtain st settled where s: "s = (st, settled)" by (cases s)
  let ?s' = "resume_step eng net T s a"
  from resume_step_trace [of eng net T st settled a p] obtain ev1
    where e1: "trace (fst ?s') = trace st @ ev1" "stage_labels ev1 = []" "requests_to p ev1 = []"
    using s by auto
  from Cons.IH [of ?s'] obtain ev2
    where e2: "trace (fst (foldl (resume_step eng net T) ?s' as)) = trace (fst ?s') @ ev2"
      "stage_labels ev2 = []" "requests_to p ev2 = []"
    by auto
  have "trace (fst (foldl (resume_step eng net T) s (a # as))) = trace (fst s) @ (ev1 @ ev2)"
    using e1 e2 s by simp
  moreover have "stage_labels (ev1 @ ev2) = []" "requests_to p (ev1 @ ev2) = []"
    using e1 e2 by (simp_all add: stage_labels_append requests_to_append)
  ultimately show ?case by blast
qed

lemma nsucc_update:
  assumes "i < length settled" and "settled ! i = None"
  shows "nsucc (settled[i := v]) = nsucc settled + (if fulfilled v then 1 else 0)"
proof -
  have a: "settled = take i settled @ None # drop (Suc i) settled"
    using assms by (metis id_take_nth_drop)
  have b: "settled[i := v] = take i settled @ v # drop (Suc i) settled"
    using assms(1) by (simp add: upd_conv_take_nth_drop)
  have "nsucc (take i settled @ None # drop (Suc i) settled) + (if fulfilled v then 1 else 0) =
        nsucc (take i settled @ v # drop (Suc i) settled)"
    by (simp add: nsucc_def fulfilled_def)
  with a b show ?thesis by metis
qed

lemma settle_progress:
  assumes "progress (fst s) = ((\<lambda>p. js_add p (js_div 100 (of_nat T))) ^^ nsucc (snd s)) c"
    and "progress_values (trace (fst s)) =
           pre @ map (\<lambda>k. ((\<lambda>p. js_add p (js_div 100 (of_nat T))) ^^ k) c) [0..<Suc (nsucc (snd s))]"
  shows "progress (fst (foldl (resume_step eng net T) s as)) =
           ((\<lambda>p. js_add p (js_div 100 (of_nat T))) ^^ nsucc (snd (foldl (resume_step eng net T) s as))) c
       \<and> progress_values (trace (fst (foldl (resume_step eng net T) s as))) =
           pre @ map (\<lambda>k. ((\<lambda>p. js_add p (js_div 100 (of_nat T))) ^^ k) c)
                   [0..<Suc (nsucc (snd (foldl (resume_step eng net T) s as)))]"
  using assms
proof (induction as arbitrary: s)
  case Nil
  then show ?case by simp
next
  case (Cons a as)
  obtain st settled where s: "s = (st, settled)" by (cases s)
  let ?f = "\<lambda>p. js_add p (js_div 100 (of_nat T))"
  let ?s' = "resume_step eng net T s a"
  let ?new = "a < length settled \<and> settled ! a = None \<and> fulfilled (Some (step_outcome eng net a))"
  from resume_step_trace [of eng net T st settled a "[]"] obtain ev
    where ev: "trace (fst ?s') = trace st @ ev"
      "progress_values ev = (if ?new then [?f (progress st)] else [])"
    using s by auto
  have n: "nsucc (snd ?s') = nsucc settled + (if ?new then 1 else 0)"
    using resume_step_settled [of eng net T st settled a] s
    by (auto simp: nsucc_update)
  have p: "progress (fst ?s') = (if ?new then ?f (progress st) else progress st)"
    using resume_step_progress [of eng net T st settled a] s by simp
  have 1: "progress (fst ?s') = (?f ^^ nsucc (snd ?s')) c"
    using p n Cons.prems(1) s by simp
  have 2: "progress_values (trace (fst ?s')) =
      pre @ map (\<lambda>k. (?f ^^ k) c) [0..<Suc (nsucc (snd ?s'))]"
    using ev n Cons.prems s by (simp add: progress_values_append)
  show ?case using Cons.IH [OF 1 2] by simp
qed

section \<open>The merge and the end of the run\<close>

lemma reduce_fold:
  "foldl reduce_step (acc, st) rs =
     (foldl object_spread acc (fulfilled_values rs), st\<lparr>trace := trace st @ rejection_logs rs\<rparr>)"
proof (induction rs arbitrary: acc st)
  case Nil
  then show ?case by (simp add: fulfilled_values_def rejection_logs_def)
next
  case (Cons r rs)
  show ?case
  proof (cases r)
    case (Inl e)
    then show ?thesis
      using Cons.IH [of acc "emit (ConsoleError [Str ''A part of the analysis failed:'', Err e]) st"]
      by (simp add: reduce_step_def fulfilled_values_def rejection_logs_def emit_def)
  next
    case (Inr v)
    then show ?thesis
      using Cons.IH [of "object_spread acc v" st]
      by (simp add: reduce_step_def fulfilled_values_def rejection_logs_def)
  qed
qed

lemma update_fresh: "k \<notin> fst ` set acc \<Longrightarrow> AList.update k v acc = acc @ [(k, v)]"
  by (induction acc) auto

lemma spread_singletons:
  "distinct (map fst (acc @ kvs)) \<Longrightarrow>
   foldl object_spread acc (map (\<lambda>kv. [kv]) kvs) = acc @ kvs"
proof (induction kvs arbitrary: acc)
  case Nil
  then show ?case by simp
next
  case (Cons kv kvs)
  have fresh: "fst kv \<notin> fst ` set acc" using Cons.prems by auto
  have "object_spread acc [kv] = acc @ [kv]"
    using update_fresh [OF fresh, of "snd kv"] by (simp add: object_spread_def)
  moreover have "distinct (map fst ((acc @ [kv]) @ kvs))" using Cons.prems by simp
  ultimately show ?case using Cons.IH [of "acc @ [kv]"] by simp
qed

lemma fulfilled_values_outcomes:
  "fulfilled_values (map (step_outcome eng net) is) =
     map (\<lambda>kv. [kv]) (concat (map (\<lambda>i. case step_result eng net i of
                        Inr v \<Rightarrow> [(key (analysisSteps ! i), v)]
                      | Inl e \<Rightarrow> []) is))"
  by (induction "is") (auto simp: fulfilled_values_def step_outcome_def split: sum.splits)

lemma keys_of_outcomes:
  "map fst (concat (map (\<lambda>i. case step_result eng net i of
                        Inr v \<Rightarrow> [(key (analysisSteps ! i), v)]
                      | Inl e \<Rightarrow> []) is)) =
     map (\<lambda>i. key (analysisSteps ! i)) (filter (step_ok eng net) is)"
  by (induction "is") (auto simp: step_ok_def step_result_def split: sum.splits)

lemma distinct_keys: "distinct (map key analysisSteps)"
  by (simp add: analysisSteps_def)

lemma keys_by_index: "map (\<lambda>i. key (analysisSteps ! i)) [0..<5] = map key analysisSteps"
proof -
  have "map ((!) analysisSteps) [0..<length analysisSteps] = analysisSteps"
    by (rule map_nth)
  then have "map ((!) analysisSteps) [0..<5] = analysisSteps"
    by (simp only: length_analysisSteps)
  then have "map key (map ((!) analysisSteps) [0..<5]) = map key analysisSteps"
    by (rule arg_cong)
  then show ?thesis by (simp only: map_map comp_def)
qed

lemma succeeded_report_keys:
  "map fst (succeeded_report eng net) =
     map (\<lambda>i. key (analysisSteps ! i)) (filter (step_ok eng net) [0..<5])"
  by (simp only: succeeded_report_def keys_of_outcomes)

lemma succeeded_report_distinct: "distinct (map fst (succeeded_report eng net))"
proof -
  have "distinct (map (\<lambda>i. key (analysisSteps ! i)) [0..<5])"
    using distinct_keys by (simp only: keys_by_index)
  then have "distinct (map (\<lambda>i. key (analysisSteps ! i)) (filter (step_ok eng net) [0..<5]))"
    by (rule distinct_map_filter)
  then show ?thesis by (simp only: succeeded_report_keys)
qed

lemma merge_outcomes:
  "foldl object_spread [] (fulfilled_values (map (step_outcome eng net) [0..<5])) =
     succeeded_report eng net"
  using spread_singletons [of "[]" "succeeded_report eng net"] succeeded_report_distinct [of eng net]
  by (simp add: fulfilled_values_outcomes succeeded_report_def)

lemma finish_outcomes:
  "finish (map (step_outcome eng net) [0..<5]) st =
     (if succeeded_report eng net = [] then
        st\<lparr>isLoading := False,
           error := Some (Text ''All analysis steps failed. Please check the server logs.''),
           trace := trace st @ rejection_logs (map (step_outcome eng net) [0..<5]) @
              [SetError (Some (Text ''All analysis steps failed. Please check the server logs.'')),
               SetIsLoading False]\<rparr>
      else
        st\<lparr>isLoading := False, progress := 100, results := Some (succeeded_report eng net),
           trace := trace st @ rejection_logs (map (step_outcome eng net) [0..<5]) @
              [SetResults (Some (succeeded_report eng net)), SetProgress 100,
               SetIsLoading False]\<rparr>)"
  by (simp add: finish_def reduce_fold merge_outcomes finally_block_def catch_block_def
      message_or_unknown_def setError_def setIsLoading_def setProgress_def setResults_def emit_def
      del: upt_Suc)

lemma rejection_logs_silent:
  "stage_labels (rejection_logs rs) = [] \<and> progress_values (rejection_logs rs) = [] \<and>
   requests_to p (rejection_logs rs) = []"
  by (induction rs)
     (auto simp: rejection_logs_def stage_labels_def progress_values_def requests_to_def
       split: sum.splits)

lemma all_settled:
  assumes "{0..<5} \<subseteq> set (arrivals net)"
  shows "snd (settle_all eng net T st) = map (\<lambda>i. Some (step_outcome eng net i)) [0..<5]"
proof (rule nth_equalityI)
  show "length (snd (settle_all eng net T st)) = length (map (\<lambda>i. Some (step_outcome eng net i)) [0..<5])"
    by (simp add: settle_all_def settle_length length_analysisSteps)
next
  fix j
  assume "j < length (snd (settle_all eng net T st))"
  then have j: "j < 5" by (simp add: settle_all_def settle_length length_analysisSteps)
  then have "j \<in> set (arrivals net)" using assms by auto
  moreover have "snd (settle_all eng net T st) ! j =
      (case replicate 5 None ! j of Some x \<Rightarrow> Some x
       | None \<Rightarrow> if j \<in> set (arrivals net) then Some (step_outcome eng net j) else None)"
    using settle_nth [of j "(st, replicate 5 None)" eng net T "arrivals net"] j
    by (simp add: settle_all_def length_analysisSteps)
  ultimately show "snd (settle_all eng net T st) ! j = map (\<lambda>i. Some (step_outcome eng net i)) [0..<5] ! j"
    using j by (simp del: upt_Suc)
qed

lemma nsucc_outcomes:
  "nsucc (map (\<lambda>i. Some (step_outcome eng net i)) is) = length (filter (step_ok eng net) is)"
  by (induction "is")
     (auto simp: nsucc_def fulfilled_def step_outcome_def step_ok_def step_result_def
       split: sum.splits)

lemma succeeded_report_empty:
  "succeeded_report eng net = [] \<longleftrightarrow> filter (step_ok eng net) [0..<5] = []"
proof -
  have "succeeded_report eng net = [] \<longleftrightarrow> map fst (succeeded_report eng net) = []" by simp
  also have "\<dots> \<longleftrightarrow> filter (step_ok eng net) [0..<5] = []"
    by (simp only: succeeded_report_keys map_is_Nil_conv)
  finally show ?thesis .
qed

section \<open>Runs whose extraction succeeds\<close>

lemma launch_events_silent:
  "progress_values (concat (map (\<lambda>step. [SetLoadingStage (stage step),
        Fetch (API_BASE_URL @ ''/llm-call'')
          (query (prompt step) @ [CHR 0x0A, CHR 0x0A] @ expectedFormat (prompt step))]) steps)) = [] \<and>
   filter is_Resume (concat (map (\<lambda>step. [SetLoadingStage (stage step),
        Fetch (API_BASE_URL @ ''/llm-call'')
          (query (prompt step) @ [CHR 0x0A, CHR 0x0A] @ expectedFormat (prompt step))]) steps)) = [] \<and>
   stage_labels (concat (map (\<lambda>step. [SetLoadingStage (stage step),
        Fetch (API_BASE_URL @ ''/llm-call'')
          (query (prompt step) @ [CHR 0x0A, CHR 0x0A] @ expectedFormat (prompt step))]) steps)) =
     map stage steps"
  by (induction steps) (simp_all add: progress_values_def is_Resume_def stage_labels_def)

lemma run_settled:
  assumes "url st \<noteq> []" and "site_reply net = Some reply"
    and "parseWebsite eng reply = Inr content"
    and "{0..<5} \<subseteq> set (arrivals net)"
  shows "handleAnalyze eng net st =
           finish (map (step_outcome eng net) [0..<5]) (fst (settle_all eng net 6 (at_allSettled st)))"
proof -
  obtain st' settled where s: "settle_all eng net 6 (at_allSettled st) = (st', settled)"
    by (cases "settle_all eng net 6 (at_allSettled st)")
  have settled: "settled = map (\<lambda>i. Some (step_outcome eng net i)) [0..<5]"
    using all_settled [OF assms(4), of eng 6 "at_allSettled st"] s by simp
  have "list_all (\<lambda>p. p \<noteq> None) settled"
    by (simp add: settled list_all_iff)
  moreover have "map the settled = map (step_outcome eng net) [0..<5]"
    by (simp add: settled del: upt_Suc)
  ultimately show ?thesis
    using handleAnalyze_analyzing [OF assms(1-3)] s by simp
qed

lemma settled_state_fields:
  "error (fst (settle_all eng net 6 (at_allSettled st))) = None \<and>
   results (fst (settle_all eng net 6 (at_allSettled st))) = None \<and>
   loadingStage (fst (settle_all eng net 6 (at_allSettled st))) = ''6/6 - Extracting nutrition facts...''"
  using settle_fields [of eng net 6 "(at_allSettled st, replicate (length analysisSteps) None)" "arrivals net"]
    at_allSettled_fields [of st]
  by (simp add: settle_all_def)

lemma settled_state_progress:
  "progress (fst (settle_all eng net 6 (at_allSettled st))) =
     ((\<lambda>p. js_add p (js_div 100 6)) ^^ nsucc (snd (settle_all eng net 6 (at_allSettled st)))) (js_div 100 6)
   \<and> progress_values (trace (fst (settle_all eng net 6 (at_allSettled st)))) =
     (progress_values (trace st) @ [0]) @
       map (\<lambda>k. ((\<lambda>p. js_add p (js_div 100 6)) ^^ k) (js_div 100 6))
         [0..<Suc (nsucc (snd (settle_all eng net 6 (at_allSettled st))))]"
proof -
  let ?s = "(at_allSettled st, replicate (length analysisSteps) (None :: (js_error + (string \<times> json) list) option))"
  have n0: "nsucc (snd ?s) = 0" by (simp add: nsucc_def fulfilled_def)
  have 1: "progress (fst ?s) =
      ((\<lambda>p. js_add p (js_div 100 (of_nat 6))) ^^ nsucc (snd ?s)) (js_div 100 6)"
    using at_allSettled_fields [of st] by (simp only: n0) simp
  have 2: "progress_values (trace (fst ?s)) =
      (progress_values (trace st) @ [0]) @
        map (\<lambda>k. ((\<lambda>p. js_add p (js_div 100 (of_nat 6))) ^^ k) (js_div 100 6)) [0..<Suc (nsucc (snd ?s))]"
    using launch_events_silent [of analysisSteps]
    by (simp only: n0) (simp add: at_allSettled_trace progress_values_append, simp add: progress_values_def)
  show ?thesis
    using settle_progress [of ?s 6 "js_div 100 6" "progress_values (trace st) @ [0]" eng net "arrivals net", OF 1 2]
    by (simp add: settle_all_def)
qed

lemma run_progress_values:
  assumes "url st \<noteq> []" and "site_reply net = Some reply"
    and "parseWebsite eng reply = Inr content"
    and "{0..<5} \<subseteq> set (arrivals net)"
  shows "progress_values (trace (handleAnalyze eng net st)) =
           progress_values (trace st) @
             0 # map (\<lambda>k. ((\<lambda>p. js_add p (js_div 100 6)) ^^ k) (js_div 100 6))
                   [0..<Suc (length (filter (step_ok eng net) [0..<5]))] @
             (if filter (step_ok eng net) [0..<5] = [] then [] else [100])"
proof -
  let ?st' = "fst (settle_all eng net 6 (at_allSettled st))"
  have n: "nsucc (snd (settle_all eng net 6 (at_allSettled st))) =
      length (filter (step_ok eng net) [0..<5])"
    by (simp only: all_settled [OF assms(4)] nsucc_outcomes)
  have pv: "progress_values (trace ?st') =
      progress_values (trace st) @
        0 # map (\<lambda>k. ((\<lambda>p. js_add p (js_div 100 6)) ^^ k) (js_div 100 6))
              [0..<Suc (length (filter (step_ok eng net) [0..<5]))]"
    using settled_state_progress [of eng net st] by (simp only: n) simp
  have "progress_values (trace (finish (map (step_outcome eng net) [0..<5]) ?st')) =
      progress_values (trace ?st') @ (if succeeded_report eng net = [] then [] else [100])"
    using rejection_logs_silent [of "map (step_outcome eng net) [0..<5]"]
    by (simp add: finish_outcomes progress_values_append del: upt_Suc)
       (simp add: progress_values_def)
  then show ?thesis
    by (simp only: run_settled [OF assms] pv succeeded_report_empty) simp
qed

lemma finish_trace:
  "\<exists>ev. trace (finish rs st) = trace st @ ev \<and> stage_labels ev = [] \<and> requests_to p ev = []"
proof -
  let ?logs = "rejection_logs rs"
  have "trace (finish rs st) = trace st @ (?logs @ [SetError (Some (Text ''All analysis steps failed. Please check the server logs.'')), SetIsLoading False])
      \<or> (\<exists>r. trace (finish rs st) = trace st @ (?logs @ [SetResults (Some r), SetProgress 100, SetIsLoading False]))"
    by (simp add: finish_def reduce_fold finally_block_def catch_block_def
        message_or_unknown_def setError_def setIsLoading_def setProgress_def setResults_def emit_def)
  moreover have "stage_labels ?logs = []" "requests_to p ?logs = []"
    using rejection_logs_silent [of rs p] by simp_all
  ultimately show ?thesis
    by (auto simp: stage_labels_append requests_to_append)
       (auto simp: stage_labels_def requests_to_def)
qed

lemma finish_stage: "loadingStage (finish rs st) = loadingStage st"
  by (simp add: finish_def reduce_fold finally_block_def catch_block_def
      setError_def setIsLoading_def setProgress_def setResults_def emit_def)

lemma run_stage_labels:
  assumes "url st \<noteq> []" and "site_reply net = Some reply"
    and "parseWebsite eng reply = Inr content"
  shows "\<exists>pre post. trace (handleAnalyze eng net st) = trace st @ pre @ post \<and>
           stage_labels pre = ''1/6 - Parsing website content...'' # map stage analysisSteps \<and>
           filter is_Resume pre = [] \<and> stage_labels post = []"
    and "loadingStage (handleAnalyze eng net st) = ''6/6 - Extracting nutrition facts...''"
proof -
  let ?pre = "[PreventDefault, SetIsLoading True, SetError None, SetResults None, SetProgress 0,
        SetLoadingStage ''1/6 - Parsing website content...'',
        Fetch (API_BASE_URL @ ''/parse-website'') (url st),
        SetProgress (js_div 100 6)] @
       concat (map (\<lambda>step. [SetLoadingStage (stage step),
        Fetch (API_BASE_URL @ ''/llm-call'')
          (query (prompt step) @ [CHR 0x0A, CHR 0x0A] @ expectedFormat (prompt step))]) analysisSteps)"
  obtain st' settled where s: "settle_all eng net 6 (at_allSettled st) = (st', settled)"
    by (cases "settle_all eng net 6 (at_allSettled st)")
  have pre1: "stage_labels ?pre = ''1/6 - Parsing website content...'' # map stage analysisSteps"
    using launch_events_silent [of analysisSteps]
    by (simp add: stage_labels_append) (simp add: stage_labels_def)
  have pre2: "filter is_Resume ?pre = []"
    using launch_events_silent [of analysisSteps] by (simp add: is_Resume_def)
  from settle_trace [of eng net 6 "(at_allSettled st, replicate (length analysisSteps) None)" "arrivals net" "[]"]
  obtain ev1 where ev1: "trace st' = trace st @ ?pre @ ev1" "stage_labels ev1 = []"
    using s by (auto simp: settle_all_def at_allSettled_trace)
  from finish_trace [of "map the settled" st' "[]"]
  obtain ev2 where ev2: "trace (finish (map the settled) st') = trace st' @ ev2" "stage_labels ev2 = []"
    by auto
  have run: "handleAnalyze eng net st =
      (if list_all (\<lambda>p. p \<noteq> None) settled then finish (map the settled) st' else st')"
    using handleAnalyze_analyzing [OF assms] s by simp
  have "trace (handleAnalyze eng net st) = trace st @ ?pre @ ev1 \<or>
        trace (handleAnalyze eng net st) = trace st @ ?pre @ (ev1 @ ev2)"
    using run ev1 ev2 by (cases "list_all (\<lambda>p. p \<noteq> None) settled") simp_all
  moreover have "stage_labels (ev1 @ ev2) = []"
    using ev1 ev2 by (simp add: stage_labels_append)
  ultimately show "\<exists>pre post. trace (handleAnalyze eng net st) = trace st @ pre @ post \<and>
           stage_labels pre = ''1/6 - Parsing website content...'' # map stage analysisSteps \<and>
           filter is_Resume pre = [] \<and> stage_labels post = []"
    using pre1 pre2 ev1(2) by blast
  have "loadingStage st' = ''6/6 - Extracting nutrition facts...''"
    using settled_state_fields [of eng net st] s by simp
  then show "loadingStage (handleAnalyze eng net st) = ''6/6 - Extracting nutrition facts...''"
    using run by (simp add: finish_stage)
qed

section \<open>The progress values in double arithmetic\<close>

text \<open>
  The values that \<^verbatim>\<open>100 / 6\<close> and the repeated additions of it take: 16.666666666666668,
  33.333333333333336, 50, 66.66666666666667, 83.33333333333334 and 100.00000000000001.
\<close>

lemma round_half_even_near:
  assumes "\<bar>x - of_int n\<bar> < 1 / 2"
  shows "round_half_even x = n"
proof (cases "of_int n \<le> x")
  case True
  with assms have "\<lfloor>x\<rfloor> = n" by (simp add: floor_eq_iff abs_less_iff)
  with assms True show ?thesis by (simp add: round_half_even_def Let_def abs_less_iff)
next
  case False
  with assms have f: "\<lfloor>x\<rfloor> = n - 1" by (simp add: floor_eq_iff abs_less_iff)
  have "1 / 2 < x - of_int (n - 1)" using assms False by (simp add: abs_less_iff)
  with f show ?thesis by (simp add: round_half_even_def Let_def)
qed

lemma round_half_even_tie:
  assumes "x = of_int f + 1 / 2" and "even f"
  shows "round_half_even x = f"
proof -
  have "\<lfloor>x\<rfloor> = f" using assms(1) by (simp add: floor_eq_iff)
  with assms show ?thesis by (simp add: round_half_even_def Let_def)
qed

lemma binade_ge1:
  assumes "1 \<le> a" and "\<lfloor>a\<rfloor> = k" and "floorlog 2 (nat k) = Suc b"
  shows "binade a = int b"
  using assms by (simp add: binade_def)

lemma fl_pos:
  assumes "0 < q" and "binade q = e" and "round_half_even (q / pow2 (e - 52)) = n"
  shows "fl q = of_int n * pow2 (e - 52)"
  using assms by (simp add: fl_def Let_def)

lemma share_value: "js_div 100 6 = 4691249611844267 / 281474976710656"
proof -
  have b: "binade (100 / 6) = 4"
    by (rule binade_ge1 [where k = 16 and b = 4, simplified])
       (simp_all add: floor_eq_iff compute_floorlog)
  have r: "round_half_even (100 / 6 / pow2 (4 - 52)) = 4691249611844267"
    by (rule round_half_even_near) (simp add: pow2_def abs_less_iff)
  have "fl (100 / 6) = of_int 4691249611844267 * pow2 (4 - 52)"
    by (rule fl_pos [OF _ b r]) simp
  then show ?thesis by (simp add: js_div_def pow2_def)
qed

lemma add_1: "js_add (4691249611844267 / 281474976710656) (4691249611844267 / 281474976710656) =
    4691249611844267 / 140737488355328"
proof -
  let ?q = "4691249611844267 / 281474976710656 + 4691249611844267 / 281474976710656 :: rat"
  have b: "binade ?q = 5"
    by (rule binade_ge1 [where k = 33 and b = 5, simplified])
       (simp_all add: floor_eq_iff compute_floorlog)
  have r: "round_half_even (?q / pow2 (5 - 52)) = 4691249611844267"
    by (rule round_half_even_near) (simp add: pow2_def abs_less_iff)
  have "fl ?q = of_int 4691249611844267 * pow2 (5 - 52)"
    by (rule fl_pos [OF _ b r]) simp
  then show ?thesis by (simp add: js_add_def pow2_def)
qed

lemma add_2: "js_add (4691249611844267 / 140737488355328) (4691249611844267 / 281474976710656) = 50"
proof -
  let ?q = "4691249611844267 / 140737488355328 + 4691249611844267 / 281474976710656 :: rat"
  have b: "binade ?q = 5"
    by (rule binade_ge1 [where k = 50 and b = 5, simplified])
       (simp_all add: floor_eq_iff compute_floorlog)
  have r: "round_half_even (?q / pow2 (5 - 52)) = 7036874417766400"
    by (rule round_half_even_tie) (simp_all add: pow2_def)
  have "fl ?q = of_int 7036874417766400 * pow2 (5 - 52)"
    by (rule fl_pos [OF _ b r]) simp
  then show ?thesis by (simp add: js_add_def pow2_def)
qed

lemma add_3: "js_add 50 (4691249611844267 / 281474976710656) = 4691249611844267 / 70368744177664"
proof -
  let ?q = "50 + 4691249611844267 / 281474976710656 :: rat"
  have b: "binade ?q = 6"
    by (rule binade_ge1 [where k = 66 and b = 6, simplified])
       (simp_all add: floor_eq_iff compute_floorlog)
  have r: "round_half_even (?q / pow2 (6 - 52)) = 4691249611844267"
    by (rule round_half_even_near) (simp add: pow2_def abs_less_iff)
  have "fl ?q = of_int 4691249611844267 * pow2 (6 - 52)"
    by (rule fl_pos [OF _ b r]) simp
  then show ?thesis by (simp add: js_add_def pow2_def)
qed

lemma add_4: "js_add (4691249611844267 / 70368744177664) (4691249611844267 / 281474976710656) =
    2932031007402667 / 35184372088832"
proof -
  let ?q = "4691249611844267 / 70368744177664 + 4691249611844267 / 281474976710656 :: rat"
  have b: "binade ?q = 6"
    by (rule binade_ge1 [where k = 83 and b = 6, simplified])
       (simp_all add: floor_eq_iff compute_floorlog)
  have r: "round_half_even (?q / pow2 (6 - 52)) = 5864062014805334"
    by (rule round_half_even_near) (simp add: pow2_def abs_less_iff)
  have "fl ?q = of_int 5864062014805334 * pow2 (6 - 52)"
    by (rule fl_pos [OF _ b r]) simp
  then show ?thesis by (simp add: js_add_def pow2_def)
qed

lemma add_5: "js_add (2932031007402667 / 35184372088832) (4691249611844267 / 281474976710656) =
    7036874417766401 / 70368744177664"
proof -
  let ?q = "2932031007402667 / 35184372088832 + 4691249611844267 / 281474976710656 :: rat"
  have b: "binade ?q = 6"
    by (rule binade_ge1 [where k = 100 and b = 6, simplified])
       (simp_all add: floor_eq_iff compute_floorlog)
  have r: "round_half_even (?q / pow2 (6 - 52)) = 7036874417766401"
    by (rule round_half_even_near) (simp add: pow2_def abs_less_iff)
  have "fl ?q = of_int 7036874417766401 * pow2 (6 - 52)"
    by (rule fl_pos [OF _ b r]) simp
  then show ?thesis by (simp add: js_add_def pow2_def)
qed

lemma progress_chain:
  "map (\<lambda>k. ((\<lambda>p. js_add p (js_div 100 6)) ^^ k) (js_div 100 6)) [0, 1, 2, 3, 4, 5] =
     [4691249611844267 / 281474976710656, 4691249611844267 / 140737488355328, 50,
      4691249611844267 / 70368744177664, 2932031007402667 / 35184372088832,
      7036874417766401 / 70368744177664]"
  by (simp add: share_value eval_nat_numeral add_1 add_2 add_3 add_4 add_5)

section \<open>The sample runs\<close>

lemma upt_6: "[0..<Suc 5] = [0, 1, 2, 3, 4, 5]"
  by (simp add: upt_rec)

lemma sample_step_ok: "step_ok sample_engine (sample_network good order) i = (i \<in> set good)"
  by (simp add: step_ok_def sample_network_def fetchAnalysis_def response_json_def
      response_text_def sample_engine_def coerce_def coerce_try_def)

lemma sample_parseWebsite:
  "parseWebsite sample_engine (Response \<lparr>ok = True, body = Some ''{}''\<rparr>) = Inr (JObj [])"
  by (simp add: parseWebsite_def response_json_def sample_engine_def)

lemma all_arrive: "{0..<5} \<subseteq> set [4, 2, 0, 1, 3 :: nat]"
  by auto

lemma upt_5: "[0..<5] = [0, 1, 2, 3, 4]"
  by (simp add: upt_rec)

lemma sample_step_result:
  \<open>step_result sample_engine (sample_network good order) i =
     (if i \<in> set good then Inr (JObj [(''grade'', JStr ''A'')])
      else Inl (Error ''API call failed: overloaded''))\<close>
  by (simp add: step_result_def sample_network_def fetchAnalysis_def response_json_def
      response_text_def sample_engine_def coerce_def coerce_try_def)

section \<open>The keys of the report\<close>

lemma key_index_inj:
  assumes "i < 5" and "j < 5" and "key (analysisSteps ! i) = key (analysisSteps ! j)"
  shows "i = j"
proof -
  have "(map key analysisSteps ! i = map key analysisSteps ! j) = (i = j)"
    using distinct_keys by (rule nth_eq_iff_index_eq) (simp_all add: length_analysisSteps assms)
  then show ?thesis using assms by (simp add: length_analysisSteps)
qed

lemma report_key_iff:
  assumes "i < 5"
  shows "key (analysisSteps ! i) \<in> fst ` set (succeeded_report eng net) \<longleftrightarrow> step_ok eng net i"
proof -
  have "set (map fst (succeeded_report eng net)) =
      set (map (\<lambda>j. key (analysisSteps ! j)) (filter (step_ok eng net) [0..<5]))"
    by (simp only: succeeded_report_keys)
  then have "fst ` set (succeeded_report eng net) =
      (\<lambda>j. key (analysisSteps ! j)) ` {j. j < 5 \<and> step_ok eng net j}"
    by (simp del: upt_Suc)
  then show ?thesis using assms key_index_inj by auto
qed

lemma report_length:
  "length (succeeded_report eng net) = card {i. i < 5 \<and> step_ok eng net i}"
proof -
  have "length (succeeded_report eng net) = length (filter (step_ok eng net) [0..<5])"
    using succeeded_report_keys [of eng net] by (metis length_map)
  also have "\<dots> = card (set (filter (step_ok eng net) [0..<5]))"
    by (rule distinct_card [symmetric]) simp
  also have "set (filter (step_ok eng net) [0..<5]) = {i. i < 5 \<and> step_ok eng net i}"
    by auto
  finally show ?thesis .
qed

section \<open>What holds of the progress values\<close>

text \<open>
  In a run whose extraction succeeds and whose analysis requests are all answered, the
  value 100 is among the progress values exactly when the run ends with a result; and
  when at least one step fails, the progress values never decrease.
\<close>

lemma chain_prefix:
  assumes "n \<le> 5"
  shows "map (\<lambda>k. ((\<lambda>p. js_add p (js_div 100 6)) ^^ k) (js_div 100 6)) [0..<Suc n] =
     take (Suc n)
       [4691249611844267 / 281474976710656, 4691249611844267 / 140737488355328, 50,
        4691249611844267 / 70368744177664, 2932031007402667 / 35184372088832,
        7036874417766401 / 70368744177664]"
proof -
  have "[0..<Suc n] = take (Suc n) [0..<Suc 5]"
    using assms by (simp only: take_upt) simp
  then have "map (\<lambda>k. ((\<lambda>p. js_add p (js_div 100 6)) ^^ k) (js_div 100 6)) [0..<Suc n] =
      take (Suc n) (map (\<lambda>k. ((\<lambda>p. js_add p (js_div 100 6)) ^^ k) (js_div 100 6)) [0..<Suc 5])"
    by (simp only: take_map)
  then show ?thesis by (simp only: upt_6 progress_chain)
qed

lemma successes_le: "length (filter (step_ok eng net) [0..<5]) \<le> 5"
proof -
  have "length (filter (step_ok eng net) [0..<5]) \<le> length [0..<5]"
    by (rule length_filter_le)
  then show ?thesis by (simp del: upt_Suc)
qed

lemma run_progress_100_iff:
  assumes "url st \<noteq> []" and "site_reply net = Some reply"
    and "parseWebsite eng reply = Inr content"
    and "{0..<5} \<subseteq> set (arrivals net)"
  shows "\<exists>vs. progress_values (trace (handleAnalyze eng net st)) = progress_values (trace st) @ vs \<and>
           (100 \<in> set vs \<longleftrightarrow> results (handleAnalyze eng net st) \<noteq> None)"
proof -
  let ?n = "length (filter (step_ok eng net) [0..<5])"
  let ?chain = "[4691249611844267 / 281474976710656, 4691249611844267 / 140737488355328, 50,
        4691249611844267 / 70368744177664, 2932031007402667 / 35184372088832,
        7036874417766401 / 70368744177664 :: rat]"
  let ?vs = "0 # take (Suc ?n) ?chain @ (if filter (step_ok eng net) [0..<5] = [] then [] else [100])"
  have pv: "progress_values (trace (handleAnalyze eng net st)) = progress_values (trace st) @ ?vs"
    by (simp only: run_progress_values [OF assms] chain_prefix [OF successes_le])
  have "100 \<notin> set ?chain" by simp
  then have "100 \<notin> set (take (Suc ?n) ?chain)"
    using set_take_subset [of "Suc ?n" ?chain] by blast
  then have v: "100 \<in> set ?vs \<longleftrightarrow> filter (step_ok eng net) [0..<5] \<noteq> []"
    by (simp del: upt_Suc take_Suc_Cons)
  have "results (handleAnalyze eng net st) \<noteq> None \<longleftrightarrow> succeeded_report eng net \<noteq> []"
    using settled_state_fields [of eng net st]
    by (simp add: run_settled [OF assms] finish_outcomes del: upt_Suc)
  then have "results (handleAnalyze eng net st) \<noteq> None \<longleftrightarrow> filter (step_ok eng net) [0..<5] \<noteq> []"
    by (simp only: succeeded_report_empty)
  with pv v show ?thesis by blast
qed

lemma run_progress_sorted:
  assumes "url st \<noteq> []" and "site_reply net = Some reply"
    and "parseWebsite eng reply = Inr content"
    and "{0..<5} \<subseteq> set (arrivals net)"
    and "\<exists>i<5. \<not> step_ok eng net i"
  shows "\<exists>vs. progress_values (trace (handleAnalyze eng net st)) = progress_values (trace st) @ vs \<and>
           sorted vs"
proof -
  let ?n = "length (filter (step_ok eng net) [0..<5])"
  let ?chain = "[4691249611844267 / 281474976710656, 4691249611844267 / 140737488355328, 50,
        4691249611844267 / 70368744177664, 2932031007402667 / 35184372088832,
        7036874417766401 / 70368744177664 :: rat]"
  let ?vs = "0 # take (Suc ?n) ?chain @ (if ?n = 0 then [] else [100])"
  have pv: "progress_values (trace (handleAnalyze eng net st)) = progress_values (trace st) @ ?vs"
    by (simp only: run_progress_values [OF assms(1-4)] chain_prefix [OF successes_le] length_0_conv)
  from assms(5) obtain i where "i \<in> set [0..<5]" "\<not> step_ok eng net i" by auto
  then have "?n < length [0..<5]" by (rule length_filter_less)
  then have less: "?n < 5" by (simp del: upt_Suc)
  define n where "n = ?n"
  with less have "n = 0 \<or> n = 1 \<or> n = 2 \<or> n = 3 \<or> n = 4" by arith
  then have "sorted (0 # take (Suc n) ?chain @ (if n = 0 then [] else [100]))"
    by (elim disjE) simp_all
  then have "sorted ?vs" by (simp only: n_def)
  with pv show ?thesis by blast
qed

section \<open>The events while the replies come in\<close>

lemma fulfilled_outcome: "fulfilled (Some (step_outcome eng net i)) = step_ok eng net i"
  by (simp add: fulfilled_def step_outcome_def step_result_def step_ok_def split: sum.splits)

lemma resume_step_trace_exact:
  assumes "i < length settled" and "settled ! i = None"
  shows "trace (fst (resume_step eng net T (st, settled) i)) =
           trace st @ Resume i # snd (fetchAnalysis eng (llm_reply net i)) @
             (if step_ok eng net i
              then [SetProgress (js_add (progress st) (js_div 100 (of_nat T)))] else [])"
  using assms
  by (auto simp: resume_step_def Let_def emit_def setProgress_def step_ok_def
      split: prod.splits sum.splits)

lemma settle_trace_exact:
  assumes "distinct as" and "\<forall>i\<in>set as. i < length settled \<and> settled ! i = None"
  shows "trace (fst (foldl (resume_step eng net T) (st, settled) as)) =
           trace st @ settling eng net (js_div 100 (of_nat T)) (progress st) as"
  using assms
proof (induction as arbitrary: st settled)
  case Nil
  then show ?case by simp
next
  case (Cons a as)
  obtain st' settled' where r: "resume_step eng net T (st, settled) a = (st', settled')"
    by (cases "resume_step eng net T (st, settled) a")
  from Cons.prems have new: "a < length settled" "settled ! a = None" by simp_all
  have tr: "trace st' = trace st @ Resume a # snd (fetchAnalysis eng (llm_reply net a)) @
      (if step_ok eng net a then [SetProgress (js_add (progress st) (js_div 100 (of_nat T)))] else [])"
    using resume_step_trace_exact [OF new, of eng net T st] r by simp
  have pr: "progress st' =
      (if step_ok eng net a then js_add (progress st) (js_div 100 (of_nat T)) else progress st)"
    using resume_step_progress [of eng net T st settled a] r new by (simp add: fulfilled_outcome)
  have se: "settled' = settled[a := Some (step_outcome eng net a)]"
    using resume_step_settled [of eng net T st settled a] r new by simp
  have d: "distinct as" using Cons.prems(1) by simp
  have rest: "\<forall>i\<in>set as. i < length settled' \<and> settled' ! i = None"
  proof
    fix i assume i: "i \<in> set as"
    with Cons.prems(1) have "i \<noteq> a" by auto
    moreover from i Cons.prems(2) have "i < length settled" "settled ! i = None" by simp_all
    ultimately show "i < length settled' \<and> settled' ! i = None" by (simp add: se)
  qed
  have "trace (fst (foldl (resume_step eng net T) (st', settled') as)) =
      trace st' @ settling eng net (js_div 100 (of_nat T)) (progress st') as"
    by (rule Cons.IH [OF d rest])
  then show ?case using r tr pr by simp
qed

lemma run_trace:
  assumes "url st \<noteq> []" and "site_reply net = Some reply"
    and "parseWebsite eng reply = Inr content"
    and "distinct (arrivals net)" and "set (arrivals net) = {0..<5}"
  shows "trace (handleAnalyze eng net st) =
           trace (at_allSettled st) @
           settling eng net (js_div 100 6) (js_div 100 6) (arrivals net) @
           rejection_logs (map (step_outcome eng net) [0..<5]) @
           (if filter (step_ok eng net) [0..<5] = []
            then [SetError (Some (Text ''All analysis steps failed. Please check the server logs.'')),
                  SetIsLoading False]
            else [SetResults (Some (succeeded_report eng net)), SetProgress 100,
                  SetIsLoading False])"
proof -
  have sub: "{0..<5} \<subseteq> set (arrivals net)" using assms(5) by simp
  have fresh: "\<forall>i\<in>set (arrivals net).
      i < length (replicate (length analysisSteps) (None :: (js_error + (string \<times> json) list) option)) \<and>
      replicate (length analysisSteps) (None :: (js_error + (string \<times> json) list) option) ! i = None"
    using assms(5) by (simp add: length_analysisSteps)
  have "trace (fst (settle_all eng net 6 (at_allSettled st))) =
      trace (at_allSettled st) @
        settling eng net (js_div 100 (of_nat 6)) (progress (at_allSettled st)) (arrivals net)"
    unfolding settle_all_def by (rule settle_trace_exact [OF assms(4) fresh])
  then have tr: "trace (fst (settle_all eng net 6 (at_allSettled st))) =
      trace (at_allSettled st) @ settling eng net (js_div 100 6) (js_div 100 6) (arrivals net)"
    using at_allSettled_fields [of st] by simp
  show ?thesis
    by (simp add: run_settled [OF assms(1-3) sub] finish_outcomes tr succeeded_report_empty
        del: upt_Suc)
qed

lemma sample_logs:
  "snd (fetchAnalysis sample_engine (llm_reply (sample_network good order) i)) = []"
  by (simp add: sample_network_def fetchAnalysis_def response_json_def
      response_text_def sample_engine_def coerce_def coerce_try_def)

lemma sample_step_outcome:
  \<open>step_outcome sample_engine (sample_network good order) i =
     (if i \<in> set good then Inr [(key (analysisSteps ! i), JObj [(''grade'', JStr ''A'')])]
      else Inl (Error ''API call failed: overloaded''))\<close>
  by (simp add: step_outcome_def sample_step_result)

section \<open>Properties of a run\<close>

text \<open>
  Claim C1: when the URL is not empty, the extraction succeeds, every analysis request is
  answered and at least one of the five steps succeeds, the run ends with the report
  stored as its result and with no error. The report holds, in the order of the steps,
  exactly the keys of the steps that succeeded, each with the result of its step: a key
  is in the report if and only if its step succeeded, and the report has as many entries
  as steps succeeded.
\<close>

theorem handleAnalyze_partial_success:
  assumes "url st \<noteq> []" and "site_reply net = Some reply"
    and "parseWebsite eng reply = Inr content"
    and "{0..<5} \<subseteq> set (arrivals net)"
    and "\<exists>i<5. step_ok eng net i"
  shows "results (handleAnalyze eng net st) = Some (succeeded_report eng net)
       \<and> error (handleAnalyze eng net st) = None
       \<and> isLoading (handleAnalyze eng net st) = False
       \<and> map fst (succeeded_report eng net) =
           map (\<lambda>i. key (analysisSteps ! i)) (filter (step_ok eng net) [0..<5])
       \<and> (\<forall>i<5. key (analysisSteps ! i) \<in> fst ` set (succeeded_report eng net) \<longleftrightarrow>
             step_ok eng net i)
       \<and> length (succeeded_report eng net) = card {i. i < 5 \<and> step_ok eng net i}"
proof -
  from assms(5) have "filter (step_ok eng net) [0..<5] \<noteq> []"
    by (auto simp: filter_empty_conv simp del: upt_Suc)
  then have ne: "succeeded_report eng net \<noteq> []" by (simp only: succeeded_report_empty not_False_eq_True)
  have "results (handleAnalyze eng net st) = Some (succeeded_report eng net)"
    and "error (handleAnalyze eng net st) = None"
    and "isLoading (handleAnalyze eng net st) = False"
    using ne settled_state_fields [of eng net st]
    by (simp_all add: run_settled [OF assms(1-4)] finish_outcomes del: upt_Suc)
  then show ?thesis
    using succeeded_report_keys [of eng net] report_key_iff [of _ eng net] report_length [of eng net]
    by simp
qed

text \<open>
  Claim C1 on the run of the specification's scenario: the first two steps succeed, the
  other three fail.
\<close>

theorem handleAnalyze_partial_success_witness:
  "results (handleAnalyze sample_engine (sample_network [0, 1] [4, 2, 0, 1, 3])
              (initial_ui ''https://example.com/p1'')) =
     Some [(''foodPreference'', JObj [(''grade'', JStr ''A'')]),
           (''healthGrade'', JObj [(''grade'', JStr ''A'')])]
   \<and> error (handleAnalyze sample_engine (sample_network [0, 1] [4, 2, 0, 1, 3])
              (initial_ui ''https://example.com/p1'')) = None"
proof -
  let ?net = "sample_network [0, 1] [4, 2, 0, 1, 3]"
  let ?st = "initial_ui ''https://example.com/p1''"
  have u: "url ?st \<noteq> []" by (simp add: initial_ui_def)
  have s: "site_reply ?net = Some (Response \<lparr>ok = True, body = Some ''{}''\<rparr>)"
    by (simp add: sample_network_def)
  have a: "{0..<5} \<subseteq> set (arrivals ?net)"
    using all_arrive by (simp add: sample_network_def)
  have "0 < (5 :: nat) \<and> step_ok sample_engine ?net 0" by (simp add: sample_step_ok)
  then have ex: "\<exists>i<5. step_ok sample_engine ?net i" by blast
  have r: "succeeded_report sample_engine ?net =
      [(''foodPreference'', JObj [(''grade'', JStr ''A'')]),
       (''healthGrade'', JObj [(''grade'', JStr ''A'')])]"
    by (simp only: succeeded_report_def upt_5) (simp add: sample_step_result analysisSteps_def)
  show ?thesis
    using handleAnalyze_partial_success [OF u s sample_parseWebsite a ex]
    by (simp only: r)
qed

text \<open>
  Claim C3: when the extraction succeeds, every analysis request is answered and all five
  steps fail, the run ends with the error
  \<^verbatim>\<open>All analysis steps failed. Please check the server logs.\<close> and with no result.
\<close>

theorem handleAnalyze_all_steps_failed:
  assumes "url st \<noteq> []" and "site_reply net = Some reply"
    and "parseWebsite eng reply = Inr content"
    and "{0..<5} \<subseteq> set (arrivals net)"
    and "\<forall>i<5. \<not> step_ok eng net i"
  shows "error (handleAnalyze eng net st) =
           Some (Text ''All analysis steps failed. Please check the server logs.'')
       \<and> results (handleAnalyze eng net st) = None
       \<and> isLoading (handleAnalyze eng net st) = False"
proof -
  from assms(5) have "filter (step_ok eng net) [0..<5] = []"
    by (auto simp: filter_empty_conv simp del: upt_Suc)
  then have e: "succeeded_report eng net = []" by (simp only: succeeded_report_empty)
  show ?thesis
    using e settled_state_fields [of eng net st]
    by (simp add: run_settled [OF assms(1-4)] finish_outcomes del: upt_Suc)
qed

text \<open>Claim C3 on a run whose five analysis requests are all refused.\<close>

theorem handleAnalyze_all_steps_failed_witness:
  "error (handleAnalyze sample_engine (sample_network [] [4, 2, 0, 1, 3])
              (initial_ui ''https://example.com/p1'')) =
     Some (Text ''All analysis steps failed. Please check the server logs.'')
   \<and> results (handleAnalyze sample_engine (sample_network [] [4, 2, 0, 1, 3])
              (initial_ui ''https://example.com/p1'')) = None"
proof -
  let ?net = "sample_network [] [4, 2, 0, 1, 3]"
  let ?st = "initial_ui ''https://example.com/p1''"
  have u: "url ?st \<noteq> []" by (simp add: initial_ui_def)
  have s: "site_reply ?net = Some (Response \<lparr>ok = True, body = Some ''{}''\<rparr>)"
    by (simp add: sample_network_def)
  have a: "{0..<5} \<subseteq> set (arrivals ?net)"
    using all_arrive by (simp add: sample_network_def)
  have no: "\<forall>i<5. \<not> step_ok sample_engine ?net i" by (simp add: sample_step_ok)
  show ?thesis
    using handleAnalyze_all_steps_failed [OF u s sample_parseWebsite a no] by simp
qed

text \<open>
  Claim C4, as stated, does not hold: a step that fails leaves the progress as it is. On
  a run whose five analysis requests are all refused, all five steps settle and the run
  ends with the error of claim C3, and the only progress values of the run are 0 and
  \<^verbatim>\<open>100 / 6\<close>.
\<close>

theorem progress_per_step_counterexample:
  "error (handleAnalyze sample_engine (sample_network [] [4, 2, 0, 1, 3])
            (initial_ui ''https://example.com/p1'')) =
     Some (Text ''All analysis steps failed. Please check the server logs.'')
   \<and> progress_values (trace (handleAnalyze sample_engine (sample_network [] [4, 2, 0, 1, 3])
            (initial_ui ''https://example.com/p1''))) = [0, js_div 100 6]"
proof -
  let ?net = "sample_network [] [4, 2, 0, 1, 3]"
  let ?st = "initial_ui ''https://example.com/p1''"
  have u: "url ?st \<noteq> []" by (simp add: initial_ui_def)
  have s: "site_reply ?net = Some (Response \<lparr>ok = True, body = Some ''{}''\<rparr>)"
    by (simp add: sample_network_def)
  have a: "{0..<5} \<subseteq> set (arrivals ?net)"
    using all_arrive by (simp add: sample_network_def)
  have f: "filter (step_ok sample_engine ?net) [0..<5] = []"
    by (simp add: sample_step_ok)
  then have e: "succeeded_report sample_engine ?net = []" by (simp only: succeeded_report_empty)
  have "error (handleAnalyze sample_engine ?net ?st) =
      Some (Text ''All analysis steps failed. Please check the server logs.'')"
    by (simp only: run_settled [OF u s sample_parseWebsite a] finish_outcomes e if_True) simp
  moreover have "progress_values (trace (handleAnalyze sample_engine ?net ?st)) = [0, js_div 100 6]"
    using run_progress_values [OF u s sample_parseWebsite a]
    by (simp only: f) (simp add: initial_ui_def progress_values_def)
  ultimately show ?thesis by simp
qed

text \<open>
  Claim C4, amended: as each of the five steps settles, progress is raised by
  \<^verbatim>\<open>100 / (stepCount + 1)\<close> if the step succeeded and is left as it is if the step failed.
  In a run whose extraction succeeds and in which each of the five analysis requests is
  answered once, what happens after the launch of the steps is this, in this order: for
  each reply, in the order of arrival, the reply is handed over, \<^verbatim>\<open>fetchAnalysis\<close> writes
  what it logs, and then, at once and only if the step succeeds, progress is set to its
  value so far plus \<^verbatim>\<open>100 / 6\<close>; after the last reply come the log lines of the failed
  steps and the end of the run. So the progress values of the run are 0, then
  \<^verbatim>\<open>100 / 6\<close>, then one value more for each step that succeeded, and at the end 100 if at
  least one step succeeded: after all steps have settled the progress reflects the number
  of steps that succeeded.
\<close>

theorem progress_per_success:
  assumes "url st \<noteq> []" and "site_reply net = Some reply"
    and "parseWebsite eng reply = Inr content"
    and "distinct (arrivals net)" and "set (arrivals net) = {0..<5}"
  shows "trace (handleAnalyze eng net st) =
           trace (at_allSettled st) @
           settling eng net (js_div 100 6) (js_div 100 6) (arrivals net) @
           rejection_logs (map (step_outcome eng net) [0..<5]) @
           (if filter (step_ok eng net) [0..<5] = []
            then [SetError (Some (Text ''All analysis steps failed. Please check the server logs.'')),
                  SetIsLoading False]
            else [SetResults (Some (succeeded_report eng net)), SetProgress 100,
                  SetIsLoading False])
       \<and> progress_values (trace (handleAnalyze eng net st)) =
           progress_values (trace st) @
             0 # map (\<lambda>k. ((\<lambda>p. js_add p (js_div 100 6)) ^^ k) (js_div 100 6))
                   [0..<Suc (length (filter (step_ok eng net) [0..<5]))] @
             (if filter (step_ok eng net) [0..<5] = [] then [] else [100])"
proof -
  have sub: "{0..<5} \<subseteq> set (arrivals net)" using assms(5) by simp
  show ?thesis
    using run_trace [OF assms] run_progress_values [OF assms(1-3) sub] by simp
qed

text \<open>
  Claim C4 as amended, on the run in which two steps succeed and three fail: the two
  increments come right after the replies to the first and the second request, and the
  replies to the other three requests are followed by no progress value.
\<close>

theorem progress_per_success_witness:
  "trace (handleAnalyze sample_engine (sample_network [0, 1] [4, 2, 0, 1, 3])
              (initial_ui ''https://example.com/p1'')) =
     trace (at_allSettled (initial_ui ''https://example.com/p1'')) @
       [Resume 4, Resume 2,
        Resume 0, SetProgress (js_add (js_div 100 6) (js_div 100 6)),
        Resume 1, SetProgress (js_add (js_add (js_div 100 6) (js_div 100 6)) (js_div 100 6)),
        Resume 3,
        ConsoleError [Str ''A part of the analysis failed:'', Err (Error ''API call failed: overloaded'')],
        ConsoleError [Str ''A part of the analysis failed:'', Err (Error ''API call failed: overloaded'')],
        ConsoleError [Str ''A part of the analysis failed:'', Err (Error ''API call failed: overloaded'')],
        SetResults (Some [(''foodPreference'', JObj [(''grade'', JStr ''A'')]),
                          (''healthGrade'', JObj [(''grade'', JStr ''A'')])]),
        SetProgress 100, SetIsLoading False]
   \<and> progress_values (trace (handleAnalyze sample_engine (sample_network [0, 1] [4, 2, 0, 1, 3])
              (initial_ui ''https://example.com/p1''))) =
     [0, js_div 100 6, js_add (js_div 100 6) (js_div 100 6),
      js_add (js_add (js_div 100 6) (js_div 100 6)) (js_div 100 6), 100]"
proof -
  let ?net = "sample_network [0, 1] [4, 2, 0, 1, 3]"
  let ?st = "initial_ui ''https://example.com/p1''"
  have u: "url ?st \<noteq> []" by (simp add: initial_ui_def)
  have s: "site_reply ?net = Some (Response \<lparr>ok = True, body = Some ''{}''\<rparr>)"
    by (simp add: sample_network_def)
  have d: "distinct (arrivals ?net)" by (simp add: sample_network_def)
  have a: "set (arrivals ?net) = {0..<5}" by (auto simp: sample_network_def)
  have ar: "arrivals ?net = [4, 2, 0, 1, 3]" by (simp add: sample_network_def)
  have f: "filter (step_ok sample_engine ?net) [0..<5] = [0, 1]"
    by (simp only: upt_5) (simp add: sample_step_ok)
  have r: "succeeded_report sample_engine ?net =
      [(''foodPreference'', JObj [(''grade'', JStr ''A'')]),
       (''healthGrade'', JObj [(''grade'', JStr ''A'')])]"
    by (simp only: succeeded_report_def upt_5) (simp add: sample_step_result analysisSteps_def)
  have se: "settling sample_engine ?net (js_div 100 6) (js_div 100 6) [4, 2, 0, 1, 3] =
      [Resume 4, Resume 2,
       Resume 0, SetProgress (js_add (js_div 100 6) (js_div 100 6)),
       Resume 1, SetProgress (js_add (js_add (js_div 100 6) (js_div 100 6)) (js_div 100 6)),
       Resume 3]"
    by (simp add: sample_logs sample_step_ok)
  have lg: "rejection_logs (map (step_outcome sample_engine ?net) [0..<5]) =
      [ConsoleError [Str ''A part of the analysis failed:'', Err (Error ''API call failed: overloaded'')],
       ConsoleError [Str ''A part of the analysis failed:'', Err (Error ''API call failed: overloaded'')],
       ConsoleError [Str ''A part of the analysis failed:'', Err (Error ''API call failed: overloaded'')]]"
    by (simp only: upt_5) (simp add: rejection_logs_def sample_step_outcome)
  have none: "progress_values (trace ?st) = []"
    by (simp add: initial_ui_def progress_values_def)
  have up: "[0..<Suc (length [0, 1 :: nat])] = [0, Suc 0, Suc (Suc 0)]"
    by (simp add: upt_rec)
  note t = progress_per_success [OF u s sample_parseWebsite d a]
  have 1: "trace (handleAnalyze sample_engine ?net ?st) =
     trace (at_allSettled ?st) @
       [Resume 4, Resume 2,
        Resume 0, SetProgress (js_add (js_div 100 6) (js_div 100 6)),
        Resume 1, SetProgress (js_add (js_add (js_div 100 6) (js_div 100 6)) (js_div 100 6)),
        Resume 3,
        ConsoleError [Str ''A part of the analysis failed:'', Err (Error ''API call failed: overloaded'')],
        ConsoleError [Str ''A part of the analysis failed:'', Err (Error ''API call failed: overloaded'')],
        ConsoleError [Str ''A part of the analysis failed:'', Err (Error ''API call failed: overloaded'')],
        SetResults (Some [(''foodPreference'', JObj [(''grade'', JStr ''A'')]),
                          (''healthGrade'', JObj [(''grade'', JStr ''A'')])]),
        SetProgress 100, SetIsLoading False]"
    using t [THEN conjunct1] by (simp only: ar se lg f r) simp
  have 2: "progress_values (trace (handleAnalyze sample_engine ?net ?st)) =
     [0, js_div 100 6, js_add (js_div 100 6) (js_div 100 6),
      js_add (js_add (js_div 100 6) (js_div 100 6)) (js_div 100 6), 100]"
    using t [THEN conjunct2] by (simp only: f none up) simp
  from 1 2 show ?thesis by (rule conjI)
qed

text \<open>
  Claim C5 fails on the code when all five steps succeed. The fifth addition of
  \<^verbatim>\<open>100 / 6\<close> gives the double 100.00000000000001, and the assignment of 100 that ends a
  successful run then lowers the progress: the sequence of progress values is not
  non-decreasing.
\<close>

theorem progress_overshoots:
  "progress_values (trace (handleAnalyze sample_engine (sample_network [0, 1, 2, 3, 4] [4, 2, 0, 1, 3])
            (initial_ui ''https://example.com/p1''))) =
     [0, 4691249611844267 / 281474976710656, 4691249611844267 / 140737488355328, 50,
      4691249611844267 / 70368744177664, 2932031007402667 / 35184372088832,
      7036874417766401 / 70368744177664, 100]
   \<and> (100 :: rat) < 7036874417766401 / 70368744177664
   \<and> \<not> sorted (progress_values (trace (handleAnalyze sample_engine
            (sample_network [0, 1, 2, 3, 4] [4, 2, 0, 1, 3]) (initial_ui ''https://example.com/p1''))))
   \<and> results (handleAnalyze sample_engine (sample_network [0, 1, 2, 3, 4] [4, 2, 0, 1, 3])
            (initial_ui ''https://example.com/p1'')) \<noteq> None"
proof -
  let ?net = "sample_network [0, 1, 2, 3, 4] [4, 2, 0, 1, 3]"
  let ?st = "initial_ui ''https://example.com/p1''"
  have u: "url ?st \<noteq> []" by (simp add: initial_ui_def)
  have s: "site_reply ?net = Some (Response \<lparr>ok = True, body = Some ''{}''\<rparr>)"
    by (simp add: sample_network_def)
  have a: "{0..<5} \<subseteq> set (arrivals ?net)"
    using all_arrive by (simp add: sample_network_def)
  have f: "filter (step_ok sample_engine ?net) [0..<5] = [0, 1, 2, 3, 4]"
    by (simp only: upt_5) (simp add: sample_step_ok)
  then have ne: "succeeded_report sample_engine ?net \<noteq> []"
    by (simp only: succeeded_report_empty) simp
  have "results (handleAnalyze sample_engine ?net ?st) \<noteq> None"
    by (simp only: run_settled [OF u s sample_parseWebsite a] finish_outcomes ne if_False) simp
  moreover have "progress_values (trace (handleAnalyze sample_engine ?net ?st)) =
     [0, 4691249611844267 / 281474976710656, 4691249611844267 / 140737488355328, 50,
      4691249611844267 / 70368744177664, 2932031007402667 / 35184372088832,
      7036874417766401 / 70368744177664, 100]"
  proof -
    have len: "length (filter (step_ok sample_engine ?net) [0..<5]) = 5"
      by (simp only: f) simp
    have chain: "map (\<lambda>k. ((\<lambda>p. js_add p (js_div 100 6)) ^^ k) (js_div 100 6))
          [0..<Suc (length (filter (step_ok sample_engine ?net) [0..<5]))] =
        [4691249611844267 / 281474976710656, 4691249611844267 / 140737488355328, 50,
         4691249611844267 / 70368744177664, 2932031007402667 / 35184372088832,
         7036874417766401 / 70368744177664]"
      by (simp only: len upt_6 progress_chain)
    have none: "progress_values (trace ?st) = []"
      by (simp add: initial_ui_def progress_values_def)
    have last: "(if filter (step_ok sample_engine ?net) [0..<5] = [] then [] else [100 :: rat]) = [100]"
      by (simp only: f) simp
    show ?thesis
      by (simp only: run_progress_values [OF u s sample_parseWebsite a] chain none last) simp
  qed
  moreover have "\<not> sorted [0, 4691249611844267 / 281474976710656,
      4691249611844267 / 140737488355328, 50, 4691249611844267 / 70368744177664,
      2932031007402667 / 35184372088832, 7036874417766401 / 70368744177664, 100 :: rat]"
    by simp
  ultimately show ?thesis by simp
qed

text \<open>
  Claim C10: in a run whose extraction succeeds, the stage labels are written in a first
  part of the run in which no reply to an analysis request has yet been handed over; they
  are the label of the extraction followed by the labels of the five steps, each once, in
  the order of the list of steps; no label is written later, so the label shown from then
  on is that of the last step; and the sequence of labels is the same whatever the
  replies to the analysis requests are and in whatever order they arrive.
\<close>

theorem stage_labels_in_step_order:
  assumes "url st \<noteq> []" and "site_reply net = Some reply"
    and "parseWebsite eng reply = Inr content"
  shows "(\<exists>pre post. trace (handleAnalyze eng net st) = trace st @ pre @ post \<and>
            stage_labels pre = ''1/6 - Parsing website content...'' # map stage analysisSteps \<and>
            filter is_Resume pre = [] \<and> stage_labels post = [])
       \<and> loadingStage (handleAnalyze eng net st) = stage (last analysisSteps)
       \<and> (\<forall>replies order.
            stage_labels (trace (handleAnalyze eng (net\<lparr>llm_reply := replies, arrivals := order\<rparr>) st)) =
            stage_labels (trace (handleAnalyze eng net st)))"
proof -
  have labels: "stage_labels (trace (handleAnalyze eng n st)) =
      stage_labels (trace st) @ ''1/6 - Parsing website content...'' # map stage analysisSteps"
    if "site_reply n = Some reply" for n
  proof -
    from run_stage_labels(1) [OF assms(1) that assms(3)] obtain pre post
      where "trace (handleAnalyze eng n st) = trace st @ pre @ post"
        and "stage_labels pre = ''1/6 - Parsing website content...'' # map stage analysisSteps"
        and "stage_labels post = []" by blast
    then show ?thesis by (simp add: stage_labels_append)
  qed
  have "stage_labels (trace (handleAnalyze eng (net\<lparr>llm_reply := replies, arrivals := order\<rparr>) st)) =
        stage_labels (trace (handleAnalyze eng net st))" for replies order
    using labels [of net] labels [of "net\<lparr>llm_reply := replies, arrivals := order\<rparr>"] assms(2)
    by simp
  moreover have "loadingStage (handleAnalyze eng net st) = stage (last analysisSteps)"
    using run_stage_labels(2) [OF assms] by (simp add: analysisSteps_def)
  ultimately show ?thesis using run_stage_labels(1) [OF assms] by blast
qed

text \<open>
  Claim C10 on two runs with different successful steps and different orders of arrival.
\<close>

theorem stage_labels_in_step_order_witness:
  "stage_labels (trace (handleAnalyze sample_engine (sample_network [0, 1] [4, 2, 0, 1, 3])
              (initial_ui ''https://example.com/p1''))) =
     [''1/6 - Parsing website content...'', ''2/6 - Analyzing food category...'',
      ''3/6 - Calculating health grade...'', ''4/6 - Assessing health risks...'',
      ''5/6 - Checking for allergens...'', ''6/6 - Extracting nutrition facts...'']
   \<and> loadingStage (handleAnalyze sample_engine (sample_network [0, 1] [4, 2, 0, 1, 3])
              (initial_ui ''https://example.com/p1'')) = ''6/6 - Extracting nutrition facts...''
   \<and> stage_labels (trace (handleAnalyze sample_engine (sample_network [3] [0, 1, 2, 3, 4])
              (initial_ui ''https://example.com/p1''))) =
     stage_labels (trace (handleAnalyze sample_engine (sample_network [0, 1] [4, 2, 0, 1, 3])
              (initial_ui ''https://example.com/p1'')))"
proof -
  let ?net = "sample_network [0, 1] [4, 2, 0, 1, 3]"
  let ?st = "initial_ui ''https://example.com/p1''"
  have u: "url ?st \<noteq> []" by (simp add: initial_ui_def)
  have s: "site_reply ?net = Some (Response \<lparr>ok = True, body = Some ''{}''\<rparr>)"
    by (simp add: sample_network_def)
  note t = stage_labels_in_step_order [OF u s sample_parseWebsite]
  from t obtain pre post
    where "trace (handleAnalyze sample_engine ?net ?st) = trace ?st @ pre @ post"
      and "stage_labels pre = ''1/6 - Parsing website content...'' # map stage analysisSteps"
      and "stage_labels post = []" by blast
  then have 1: "stage_labels (trace (handleAnalyze sample_engine ?net ?st)) =
     [''1/6 - Parsing website content...'', ''2/6 - Analyzing food category...'',
      ''3/6 - Calculating health grade...'', ''4/6 - Assessing health risks...'',
      ''5/6 - Checking for allergens...'', ''6/6 - Extracting nutrition facts...'']"
    by (simp add: stage_labels_append initial_ui_def analysisSteps_def)
  from t have 2: "loadingStage (handleAnalyze sample_engine ?net ?st) =
      ''6/6 - Extracting nutrition facts...''"
    by (simp add: analysisSteps_def)
  have n: "?net\<lparr>llm_reply := llm_reply (sample_network [3] [0, 1, 2, 3, 4]),
        arrivals := arrivals (sample_network [3] [0, 1, 2, 3, 4])\<rparr> = sample_network [3] [0, 1, 2, 3, 4]"
    by (simp add: sample_network_def)
  from t have "stage_labels (trace (handleAnalyze sample_engine
        (?net\<lparr>llm_reply := llm_reply (sample_network [3] [0, 1, 2, 3, 4]),
           arrivals := arrivals (sample_network [3] [0, 1, 2, 3, 4])\<rparr>) ?st)) =
      stage_labels (trace (handleAnalyze sample_engine ?net ?st))"
    by blast
  then have 3: "stage_labels (trace (handleAnalyze sample_engine (sample_network [3] [0, 1, 2, 3, 4]) ?st)) =
      stage_labels (trace (handleAnalyze sample_engine ?net ?st))"
    by (simp only: n)
  from 1 2 3 show ?thesis by simp
qed

end
